theory Spec2Isabelle
  imports Main "HOL-Library.Word"
begin

unbundle bit_operations_syntax

section \<open>JavaScript strings and bytes\<close>

text \<open>
  A JavaScript string is a sequence of UTF-16 code units; a \<open>Uint8Array\<close> is a sequence
  of bytes. String literals of the source are written \<open>js ''...''\<close>.
\<close>

type_synonym byte = "8 word"
type_synonym jsstring = "16 word list"

definition js :: "string \<Rightarrow> jsstring" where
  "js s = map of_char s"

section \<open>State nonce store (routes/auth.ts: generateState, consumeState)\<close>

text \<open>
  The key-value namespace \<open>OAUTH_STATE\<close>: a key holds a value and the epoch second at
  which it expires (the program only ever writes with \<open>expirationTtl\<close>). The platform's
  clock, in seconds, is passed to every operation. A key is visible to \<open>get\<close> strictly
  before its expiry second.
\<close>

type_synonym kv = "jsstring \<rightharpoonup> (jsstring \<times> nat)"

definition kv_get :: "kv \<Rightarrow> nat \<Rightarrow> jsstring \<Rightarrow> jsstring option" where
  "kv_get kv t k =
     (case kv k of
        None \<Rightarrow> None
      | Some (v, expires) \<Rightarrow> if t < expires then Some v else None)"

definition kv_put :: "kv \<Rightarrow> nat \<Rightarrow> jsstring \<Rightarrow> jsstring \<Rightarrow> nat \<Rightarrow> kv" where
  "kv_put kv t k v expirationTtl = kv(k \<mapsto> (v, t + expirationTtl))"

definition kv_delete :: "kv \<Rightarrow> jsstring \<Rightarrow> kv" where
  "kv_delete kv k = kv(k := None)"

text \<open>\<open>b.toString(16).padStart(2, '0')\<close> for a byte \<open>b\<close>, and the \<open>join('')\<close> over the array.\<close>

definition hex_digit :: "nat \<Rightarrow> 16 word" where
  "hex_digit d = (if d < 10 then of_nat (48 + d) else of_nat (87 + d))"

definition hex2 :: "byte \<Rightarrow> jsstring" where
  "hex2 b = [hex_digit (unat b div 16), hex_digit (unat b mod 16)]"

definition hex_join :: "byte list \<Rightarrow> jsstring" where
  "hex_join bs = concat (map hex2 bs)"

definition state_key :: "jsstring \<Rightarrow> jsstring" where
  "state_key state = js ''oauth_state:'' @ state"

text \<open>
  \<open>generateState\<close>: \<open>rnd\<close> is what \<open>crypto.getRandomValues(new Uint8Array(16))\<close> returned.
\<close>

definition generateState :: "kv \<Rightarrow> byte list \<Rightarrow> nat \<Rightarrow> jsstring \<times> kv" where
  "generateState kv rnd t =
     (let state = hex_join rnd
      in (state, kv_put kv t (state_key state) (js ''1'') 600))"

text \<open>\<open>consumeState\<close>: \<open>!val\<close> holds for \<open>null\<close> and for the empty string.\<close>

definition consumeState :: "kv \<Rightarrow> jsstring \<Rightarrow> nat \<Rightarrow> bool \<times> kv" where
  "consumeState kv state t =
     (case kv_get kv t (state_key state) of
        None \<Rightarrow> (False, kv)
      | Some val \<Rightarrow>
          if val = [] then (False, kv)
          else (True, kv_delete kv (state_key state)))"

text \<open>
  A history of the store: every operation the program performs on the namespace, each
  with the second at which it runs.
\<close>

datatype kv_op = Issue "byte list" | Consume jsstring

fun kv_step :: "kv \<Rightarrow> nat \<times> kv_op \<Rightarrow> kv" where
  "kv_step kv (t, Issue rnd) = snd (generateState kv rnd t)"
| "kv_step kv (t, Consume s) = snd (consumeState kv s t)"

definition kv_run :: "kv \<Rightarrow> (nat \<times> kv_op) list \<Rightarrow> kv" where
  "kv_run kv ops = foldl kv_step kv ops"

text \<open>The operations of a history that write or delete the key of nonce \<open>n\<close>.\<close>

fun touches :: "jsstring \<Rightarrow> nat \<times> kv_op \<Rightarrow> bool" where
  "touches n (t, Issue rnd) = (hex_join rnd = n)"
| "touches n (t, Consume s) = (s = n)"

fun issues :: "jsstring \<Rightarrow> nat \<times> kv_op \<Rightarrow> bool" where
  "issues n (t, Issue rnd) = (hex_join rnd = n)"
| "issues n (t, Consume s) = False"

section \<open>Relational store (db/schema.sql) and the statements the program runs\<close>

text \<open>
  Exceptions of the platform, as values. A failing D1 statement rejects with an error
  naming the violated constraint.
\<close>

datatype js_error =
    InvalidCharacterError
  | DataError
  | SyntaxError
  | TypeError
  | ConstraintError

datatype provider = Github | Google | Discord

text \<open>
  Table \<open>users\<close> and table \<open>oauth_accounts\<close>, one record per row, rows in insertion
  order. \<open>None\<close> is SQL \<open>NULL\<close>. The \<open>CHECK\<close> on \<open>provider\<close> is the datatype. Table
  \<open>sessions\<close> is never read or written by the program.
\<close>

record user_row =
  u_id :: jsstring
  u_email :: "jsstring option"
  u_username :: "jsstring option"
  u_display_name :: "jsstring option"
  u_avatar_url :: "jsstring option"
  u_created_at :: jsstring
  u_updated_at :: jsstring

record account_row =
  a_id :: jsstring
  a_user_id :: jsstring
  a_provider :: provider
  a_provider_user_id :: jsstring
  a_access_token :: "jsstring option"
  a_refresh_token :: "jsstring option"
  a_created_at :: jsstring

record db =
  users :: "user_row list"
  oauth_accounts :: "account_row list"

text \<open>The non-null e-mails of a table: \<open>UNIQUE\<close> admits any number of \<open>NULL\<close>s.\<close>

definition emails :: "user_row list \<Rightarrow> jsstring list" where
  "emails rows = List.map_filter u_email rows"

definition acct_key :: "account_row \<Rightarrow> provider \<times> jsstring" where
  "acct_key a = (a_provider a, a_provider_user_id a)"

text \<open>
  The constraints of the schema: primary keys, \<open>UNIQUE\<close> on \<open>email\<close> and on
  \<open>(provider, provider_user_id)\<close>, the foreign key of \<open>user_id\<close>.
\<close>

definition db_ok :: "db \<Rightarrow> bool" where
  "db_ok d \<longleftrightarrow>
     distinct (map u_id (users d)) \<and>
     distinct (emails (users d)) \<and>
     distinct (map a_id (oauth_accounts d)) \<and>
     distinct (map acct_key (oauth_accounts d)) \<and>
     set (map a_user_id (oauth_accounts d)) \<subseteq> set (map u_id (users d))"

text \<open>
  \<open>SELECT user_id FROM oauth_accounts WHERE provider = ? AND provider_user_id = ?\<close>,
  \<open>.first()\<close>.
\<close>

definition select_account :: "db \<Rightarrow> provider \<Rightarrow> jsstring \<Rightarrow> jsstring option" where
  "select_account d p pid =
     map_option a_user_id (find (\<lambda>a. a_provider a = p \<and> a_provider_user_id a = pid) (oauth_accounts d))"

text \<open>
  \<open>UPDATE oauth_accounts SET access_token = ? WHERE provider = ? AND provider_user_id = ?\<close>.
\<close>

definition update_access_token :: "db \<Rightarrow> jsstring \<Rightarrow> provider \<Rightarrow> jsstring \<Rightarrow> db" where
  "update_access_token d tok p pid =
     d\<lparr>oauth_accounts :=
         map (\<lambda>a. if a_provider a = p \<and> a_provider_user_id a = pid
                   then a\<lparr>a_access_token := Some tok\<rparr> else a)
           (oauth_accounts d)\<rparr>"

definition coalesce :: "'a option \<Rightarrow> 'a option \<Rightarrow> 'a option" where
  "coalesce new old = (case new of Some v \<Rightarrow> Some v | None \<Rightarrow> old)"

text \<open>
  \<open>UPDATE users SET email = COALESCE(?, email), display_name = COALESCE(?, display_name),
  avatar_url = COALESCE(?, avatar_url), updated_at = datetime('now') WHERE id = ?\<close>.
  The statement fails, changing nothing, when it would leave two rows with one e-mail.
\<close>

definition set_profile ::
  "jsstring option \<Rightarrow> jsstring option \<Rightarrow> jsstring option \<Rightarrow> jsstring \<Rightarrow> user_row \<Rightarrow> user_row" where
  "set_profile email displayName avatarUrl now u =
     u\<lparr>u_email := coalesce email (u_email u),
       u_display_name := coalesce displayName (u_display_name u),
       u_avatar_url := coalesce avatarUrl (u_avatar_url u),
       u_updated_at := now\<rparr>"

definition update_user_profile ::
  "db \<Rightarrow> jsstring option \<Rightarrow> jsstring option \<Rightarrow> jsstring option \<Rightarrow> jsstring \<Rightarrow> jsstring
   \<Rightarrow> js_error + db" where
  "update_user_profile d email displayName avatarUrl now uid =
     (let rows = map (\<lambda>u. if u_id u = uid then set_profile email displayName avatarUrl now u
                           else u) (users d)
      in if distinct (emails rows) then Inr (d\<lparr>users := rows\<rparr>) else Inl ConstraintError)"

text \<open>
  \<open>INSERT INTO users (id, email, username, display_name, avatar_url) VALUES (?, ?, ?, ?, ?)\<close>;
  both timestamps take their default.
\<close>

definition insert_user ::
  "db \<Rightarrow> jsstring \<Rightarrow> jsstring option \<Rightarrow> jsstring option \<Rightarrow> jsstring option \<Rightarrow> jsstring option
   \<Rightarrow> jsstring \<Rightarrow> js_error + db" where
  "insert_user d uid email username displayName avatarUrl now =
     (if uid \<in> set (map u_id (users d)) then Inl ConstraintError
      else if (case email of None \<Rightarrow> False | Some e \<Rightarrow> e \<in> set (emails (users d)))
        then Inl ConstraintError
      else Inr (d\<lparr>users := users d @
             [\<lparr>u_id = uid, u_email = email, u_username = username,
               u_display_name = displayName, u_avatar_url = avatarUrl,
               u_created_at = now, u_updated_at = now\<rparr>]\<rparr>))"

text \<open>
  \<open>INSERT INTO oauth_accounts (id, user_id, provider, provider_user_id, access_token)
  VALUES (?, ?, ?, ?, ?)\<close>.
\<close>

definition insert_account ::
  "db \<Rightarrow> jsstring \<Rightarrow> jsstring \<Rightarrow> provider \<Rightarrow> jsstring \<Rightarrow> jsstring \<Rightarrow> jsstring \<Rightarrow> js_error + db" where
  "insert_account d aid uid p pid tok now =
     (if aid \<in> set (map a_id (oauth_accounts d)) then Inl ConstraintError
      else if (p, pid) \<in> set (map acct_key (oauth_accounts d)) then Inl ConstraintError
      else if uid \<notin> set (map u_id (users d)) then Inl ConstraintError
      else Inr (d\<lparr>oauth_accounts := oauth_accounts d @
             [\<lparr>a_id = aid, a_user_id = uid, a_provider = p, a_provider_user_id = pid,
               a_access_token = Some tok, a_refresh_token = None, a_created_at = now\<rparr>]\<rparr>))"

section \<open>Identity upsert (routes/auth.ts: upsertUser)\<close>

record profile =
  email :: "jsstring option"
  username :: "jsstring option"
  displayName :: "jsstring option"
  avatarUrl :: "jsstring option"

text \<open>\<open>crypto.randomUUID().replace(/-/g, '')\<close>, for the UUID the platform returned.\<close>

definition strip_dashes :: "jsstring \<Rightarrow> jsstring" where
  "strip_dashes uuid = filter (\<lambda>c. c \<noteq> of_char CHR ''-'') uuid"

text \<open>
  \<open>upsertUser\<close>. \<open>uuid1\<close> and \<open>uuid2\<close> are the two values of \<open>crypto.randomUUID()\<close>, \<open>now\<close>
  is SQL's \<open>datetime('now')\<close>. The statements run one by one, with no transaction: the
  result is the returned user id or the error of the failing statement, together with
  the database as the statements before it left it.
\<close>

definition upsertUser ::
  "db \<Rightarrow> provider \<Rightarrow> jsstring \<Rightarrow> profile \<Rightarrow> jsstring \<Rightarrow> jsstring \<Rightarrow> jsstring \<Rightarrow> jsstring
   \<Rightarrow> (js_error + jsstring) \<times> db" where
  "upsertUser d p providerUserId prof accessToken uuid1 uuid2 now =
     (case select_account d p providerUserId of
        Some user_id \<Rightarrow>
          (let d1 = update_access_token d accessToken p providerUserId
           in case update_user_profile d1 (email prof) (displayName prof) (avatarUrl prof)
                     now user_id of
                Inl e \<Rightarrow> (Inl e, d1)
              | Inr d2 \<Rightarrow> (Inr user_id, d2))
      | None \<Rightarrow>
          (let userId = strip_dashes uuid1
           in case insert_user d userId (email prof) (username prof) (displayName prof)
                     (avatarUrl prof) now of
                Inl e \<Rightarrow> (Inl e, d)
              | Inr d1 \<Rightarrow>
                  (case insert_account d1 (strip_dashes uuid2) userId p providerUserId
                          accessToken now of
                     Inl e \<Rightarrow> (Inl e, d1)
                   | Inr d2 \<Rightarrow> (Inr userId, d2))))"

text \<open>A sequence of logins: the arguments of each \<open>upsertUser\<close> call, run in order.\<close>

record upsert_call =
  c_provider :: provider
  c_provider_user_id :: jsstring
  c_profile :: profile
  c_access_token :: jsstring
  c_uuid1 :: jsstring
  c_uuid2 :: jsstring
  c_now :: jsstring

definition upsert_step :: "db \<Rightarrow> upsert_call \<Rightarrow> db" where
  "upsert_step d c =
     snd (upsertUser d (c_provider c) (c_provider_user_id c) (c_profile c) (c_access_token c)
            (c_uuid1 c) (c_uuid2 c) (c_now c))"

definition upsert_run :: "db \<Rightarrow> upsert_call list \<Rightarrow> db" where
  "upsert_run d cs = foldl upsert_step d cs"

text \<open>What a query by id sees of a user row, and the row counts of the claims.\<close>

definition user_by_id :: "db \<Rightarrow> jsstring \<Rightarrow> user_row option" where
  "user_by_id d uid = find (\<lambda>u. u_id u = uid) (users d)"

definition account_count :: "db \<Rightarrow> provider \<Rightarrow> jsstring \<Rightarrow> nat" where
  "account_count d p pid =
     length (filter (\<lambda>a. a_provider a = p \<and> a_provider_user_id a = pid) (oauth_accounts d))"

definition user_count :: "db \<Rightarrow> provider \<Rightarrow> jsstring \<Rightarrow> nat" where
  "user_count d p pid =
     length (filter (\<lambda>u. u_id u \<in> set (map a_user_id
                (filter (\<lambda>a. a_provider a = p \<and> a_provider_user_id a = pid) (oauth_accounts d))))
              (users d))"

section \<open>Base64 (lib/jwt.ts: b64url, b64urlDecode)\<close>

text \<open>
  \<open>btoa(String.fromCharCode(...bytes))\<close>: the bytes, three at a time, as four characters
  of the base64 alphabet, padded with \<open>=\<close> to a multiple of four. Every code unit that
  \<open>String.fromCharCode\<close> makes of a byte is below 256, so \<open>btoa\<close> cannot throw here.
\<close>

definition b64_char :: "nat \<Rightarrow> 16 word" where
  "b64_char n =
     (if n < 26 then of_nat (65 + n)
      else if n < 52 then of_nat (97 + (n - 26))
      else if n < 62 then of_nat (48 + (n - 52))
      else if n = 62 then 43
      else 47)"

fun sextets :: "byte list \<Rightarrow> nat list" where
  "sextets (a # b # c # rest) =
     (let n = unat a * 65536 + unat b * 256 + unat c
      in [n div 262144, n div 4096 mod 64, n div 64 mod 64, n mod 64] @ sextets rest)"
| "sextets [a, b] =
     (let n = (unat a * 256 + unat b) * 4
      in [n div 4096, n div 64 mod 64, n mod 64])"
| "sextets [a] =
     (let n = unat a * 16
      in [n div 64, n mod 64])"
| "sextets [] = []"

definition btoa :: "byte list \<Rightarrow> jsstring" where
  "btoa bs = map b64_char (sextets bs) @ replicate ((3 - length bs mod 3) mod 3) 61"

text \<open>\<open>s.replace(/x/g, 'y')\<close> for single characters, and \<open>s.replace(/x/g, '')\<close>.\<close>

definition replace_char :: "16 word \<Rightarrow> 16 word \<Rightarrow> jsstring \<Rightarrow> jsstring" where
  "replace_char x y s = map (\<lambda>c. if c = x then y else c) s"

definition remove_char :: "16 word \<Rightarrow> jsstring \<Rightarrow> jsstring" where
  "remove_char x s = filter (\<lambda>c. c \<noteq> x) s"

definition b64url :: "byte list \<Rightarrow> jsstring" where
  "b64url buf = remove_char 61 (replace_char 47 95 (replace_char 43 45 (btoa buf)))"

text \<open>
  \<open>atob\<close>, the forgiving base64 decoder of the HTML standard: ASCII whitespace is
  dropped; when the length is then a multiple of four, one or two trailing \<open>=\<close> are
  dropped; a length of 1 modulo 4 or a character outside the alphabet is an
  \<open>InvalidCharacterError\<close>; the leftover bits of a final group of two or three characters
  are discarded.
\<close>

definition b64_val :: "16 word \<Rightarrow> nat option" where
  "b64_val c =
     (let x = unat c
      in if 65 \<le> x \<and> x \<le> 90 then Some (x - 65)
         else if 97 \<le> x \<and> x \<le> 122 then Some (x - 71)
         else if 48 \<le> x \<and> x \<le> 57 then Some (x + 4)
         else if x = 43 then Some 62
         else if x = 47 then Some 63
         else None)"

definition ascii_whitespace :: "16 word \<Rightarrow> bool" where
  "ascii_whitespace c \<longleftrightarrow> c = 9 \<or> c = 10 \<or> c = 12 \<or> c = 13 \<or> c = 32"

definition strip_padding :: "jsstring \<Rightarrow> jsstring" where
  "strip_padding s =
     (if length s mod 4 = 0 \<and> s \<noteq> [] \<and> last s = 61
      then (if butlast s \<noteq> [] \<and> last (butlast s) = 61 then butlast (butlast s) else butlast s)
      else s)"

fun unsextets :: "nat list \<Rightarrow> byte list" where
  "unsextets (a # b # c # d # rest) =
     (let n = a * 262144 + b * 4096 + c * 64 + d
      in [of_nat (n div 65536), of_nat (n div 256 mod 256), of_nat (n mod 256)] @ unsextets rest)"
| "unsextets [a, b, c] =
     (let n = (a * 4096 + b * 64 + c) div 4
      in [of_nat (n div 256), of_nat (n mod 256)])"
| "unsextets [a, b] = [of_nat ((a * 64 + b) div 16)]"
| "unsextets [a] = []"
| "unsextets [] = []"

fun all_vals :: "jsstring \<Rightarrow> nat list option" where
  "all_vals [] = Some []"
| "all_vals (c # cs) =
     (case b64_val c of
        None \<Rightarrow> None
      | Some v \<Rightarrow> (case all_vals cs of None \<Rightarrow> None | Some vs \<Rightarrow> Some (v # vs)))"

definition atob :: "jsstring \<Rightarrow> js_error + byte list" where
  "atob s =
     (let d = strip_padding (filter (\<lambda>c. \<not> ascii_whitespace c) s)
      in if length d mod 4 = 1 then Inl InvalidCharacterError
         else (case all_vals d of
                 None \<Rightarrow> Inl InvalidCharacterError
               | Some vs \<Rightarrow> Inr (unsextets vs)))"

text \<open>
  \<open>b64urlDecode\<close>: the bytes of the binary string that \<open>atob\<close> returns
  (\<open>Uint8Array.from(..., c => c.charCodeAt(0))\<close>).
\<close>

definition b64urlDecode :: "jsstring \<Rightarrow> js_error + byte list" where
  "b64urlDecode s = atob (replace_char 95 47 (replace_char 45 43 s))"

text \<open>The character code of a sextet, and the character \<open>b64url\<close> writes for it.\<close>

definition b64_code :: "nat \<Rightarrow> nat" where
  "b64_code n =
     (if n < 26 then 65 + n
      else if n < 52 then 97 + (n - 26)
      else if n < 62 then 48 + (n - 52)
      else if n = 62 then 43
      else 47)"

definition b64url_char :: "nat \<Rightarrow> 16 word" where
  "b64url_char n = (if n = 62 then 45 else if n = 63 then 95 else b64_char n)"

section \<open>TextEncoder and TextDecoder\<close>

text \<open>
  \<open>new TextEncoder().encode(s)\<close>: the code units are read as code points (a surrogate
  pair is one code point, a lone surrogate becomes U+FFFD) and written in UTF-8.
\<close>

definition high_surrogate :: "nat \<Rightarrow> bool" where
  "high_surrogate c \<longleftrightarrow> 55296 \<le> c \<and> c \<le> 56319"

definition low_surrogate :: "nat \<Rightarrow> bool" where
  "low_surrogate c \<longleftrightarrow> 56320 \<le> c \<and> c \<le> 57343"

fun code_points :: "nat list \<Rightarrow> nat list" where
  "code_points [] = []"
| "code_points [c] = [if high_surrogate c \<or> low_surrogate c then 65533 else c]"
| "code_points (h # l # rest) =
     (if high_surrogate h \<and> low_surrogate l
      then (65536 + (h - 55296) * 1024 + (l - 56320)) # code_points rest
      else (if high_surrogate h \<or> low_surrogate h then 65533 else h) # code_points (l # rest))"

definition utf8_bytes :: "nat \<Rightarrow> nat list" where
  "utf8_bytes cp =
     (if cp < 128 then [cp]
      else if cp < 2048 then [192 + cp div 64, 128 + cp mod 64]
      else if cp < 65536 then [224 + cp div 4096, 128 + cp div 64 mod 64, 128 + cp mod 64]
      else [240 + cp div 262144, 128 + cp div 4096 mod 64, 128 + cp div 64 mod 64,
            128 + cp mod 64])"

definition TextEncode :: "jsstring \<Rightarrow> byte list" where
  "TextEncode s = map of_nat (concat (map utf8_bytes (code_points (map unat s))))"

text \<open>
  \<open>new TextDecoder().decode(bytes)\<close>: the UTF-8 decoder of the Encoding standard, in
  replacement mode. Its state is the code point being built, the continuation bytes it
  still needs and has seen, and the bounds for the next byte. A byte that cannot
  continue a sequence ends it with U+FFFD and is read again as a first byte. A leading
  byte order mark is dropped.
\<close>

function utf8_decode :: "nat \<Rightarrow> nat \<Rightarrow> nat \<Rightarrow> nat \<Rightarrow> nat \<Rightarrow> nat list \<Rightarrow> nat list" where
  "utf8_decode cp needed seen lower upper [] = (if needed \<noteq> 0 then [65533] else [])"
| "utf8_decode cp needed seen lower upper (b # bs) =
     (if needed = 0 then
        (if b \<le> 127 then b # utf8_decode 0 0 0 128 191 bs
         else if 194 \<le> b \<and> b \<le> 223 then utf8_decode (b mod 32) 1 0 128 191 bs
         else if 224 \<le> b \<and> b \<le> 239 then
           utf8_decode (b mod 16) 2 0 (if b = 224 then 160 else 128)
             (if b = 237 then 159 else 191) bs
         else if 240 \<le> b \<and> b \<le> 244 then
           utf8_decode (b mod 8) 3 0 (if b = 240 then 144 else 128)
             (if b = 244 then 143 else 191) bs
         else 65533 # utf8_decode 0 0 0 128 191 bs)
      else if b < lower \<or> upper < b then 65533 # utf8_decode 0 0 0 128 191 (b # bs)
      else if seen + 1 \<noteq> needed then
        utf8_decode (cp * 64 + b mod 64) needed (seen + 1) 128 191 bs
      else (cp * 64 + b mod 64) # utf8_decode 0 0 0 128 191 bs)"
  by pat_completeness auto
termination
  by (relation "measures [\<lambda>(cp, needed, seen, lower, upper, bs). length bs,
                          \<lambda>(cp, needed, seen, lower, upper, bs). needed]") auto

definition utf16_units :: "nat \<Rightarrow> nat list" where
  "utf16_units cp =
     (if cp < 65536 then [cp]
      else [55296 + (cp - 65536) div 1024, 56320 + (cp - 65536) mod 1024])"

definition drop_bom :: "nat list \<Rightarrow> nat list" where
  "drop_bom cps = (case cps of [] \<Rightarrow> [] | c # rest \<Rightarrow> if c = 65279 then rest else c # rest)"

definition TextDecode :: "byte list \<Rightarrow> jsstring" where
  "TextDecode bs =
     map of_nat (concat (map utf16_units (drop_bom (utf8_decode 0 0 0 128 191 (map unat bs)))))"

section \<open>JSON values, JSON.stringify and JSON.parse\<close>

text \<open>
  A JSON value. An object is the list of its properties in enumeration order. A number
  \<open>JNum m e\<close> is the decimal \<open>m \<times> 10\<^sup>e\<close>, with \<open>m\<close> not divisible by 10 (or both zero):
  the model keeps the exact decimal where JavaScript keeps the nearest double, so the
  two agree on every integer of magnitude below \<open>2\<^sup>5\<^sup>3\<close>, in particular on every epoch
  second.
\<close>

datatype json =
    JNull
  | JBool bool
  | JNum int int
  | JStr jsstring
  | JArr "json list"
  | JObj "(jsstring \<times> json) list"

function normalise :: "int \<Rightarrow> int \<Rightarrow> int \<times> int" where
  "normalise m e =
     (if m = 0 then (0, 0)
      else if m mod 10 = 0 then normalise (m div 10) (e + 1)
      else (m, e))"
  by pat_completeness auto
termination
  by (relation "measure (\<lambda>(m, e). nat \<bar>m\<bar>)") auto

declare normalise.simps [simp del]

definition jnum :: "int \<Rightarrow> json" where
  "jnum n = (case normalise n 0 of (m, e) \<Rightarrow> JNum m e)"

text \<open>The comparison \<open>x < n\<close> of a number with an integer.\<close>

definition num_less :: "int \<Rightarrow> int \<Rightarrow> int \<Rightarrow> bool" where
  "num_less m e n = (if 0 \<le> e then m * 10 ^ nat e < n else m < n * 10 ^ nat (- e))"

subsection \<open>JSON.stringify\<close>

function digits :: "int \<Rightarrow> jsstring" where
  "digits n = (if n < 10 then [of_int (48 + n)] else digits (n div 10) @ [of_int (48 + n mod 10)])"
  by pat_completeness auto
termination
  by (relation "measure nat") auto

declare digits.simps [simp del]

text \<open>
  \<open>Number::toString\<close>: with \<open>k\<close> digits and the decimal point after the \<open>n\<close>-th of them,
  plain notation for \<open>-6 < n \<le> 21\<close> and exponent notation otherwise.
\<close>

definition number_to_string :: "int \<Rightarrow> int \<Rightarrow> jsstring" where
  "number_to_string m e =
     (if m = 0 then js ''0''
      else
        (let s = digits \<bar>m\<bar>;
             k = int (length s);
             n = k + e;
             sign = (if m < 0 then js ''-'' else [])
         in sign @
            (if k \<le> n \<and> n \<le> 21 then s @ replicate (nat (n - k)) 48
             else if 0 < n \<and> n \<le> 21 then take (nat n) s @ js ''.'' @ drop (nat n) s
             else if - 6 < n \<and> n \<le> 0 then js ''0.'' @ replicate (nat (- n)) 48 @ s
             else (if k = 1 then s else take 1 s @ js ''.'' @ drop 1 s)
                  @ js ''e'' @ (if 0 < n - 1 then js ''+'' else js ''-'')
                  @ digits \<bar>n - 1\<bar>)))"

definition hex4 :: "nat \<Rightarrow> jsstring" where
  "hex4 c = [hex_digit (c div 4096), hex_digit (c div 256 mod 16), hex_digit (c div 16 mod 16),
             hex_digit (c mod 16)]"

text \<open>
  \<open>QuoteJSONString\<close>: the short escapes, \<open>\u\<close> escapes for the other control characters
  and for lone surrogates, everything else as it is.
\<close>

fun quote_units :: "jsstring \<Rightarrow> jsstring" where
  "quote_units [] = []"
| "quote_units (c # rest) =
     (if c = 8 then [92, 98] @ quote_units rest
      else if c = 9 then [92, 116] @ quote_units rest
      else if c = 10 then [92, 110] @ quote_units rest
      else if c = 12 then [92, 102] @ quote_units rest
      else if c = 13 then [92, 114] @ quote_units rest
      else if c = 34 then [92, 34] @ quote_units rest
      else if c = 92 then [92, 92] @ quote_units rest
      else if c < 32 then [92, 117] @ hex4 (unat c) @ quote_units rest
      else if high_surrogate (unat c) then
        (case rest of
           [] \<Rightarrow> [92, 117] @ hex4 (unat c)
         | l # rest' \<Rightarrow>
             if low_surrogate (unat l) then c # l # quote_units rest'
             else [92, 117] @ hex4 (unat c) @ quote_units rest)
      else if low_surrogate (unat c) then [92, 117] @ hex4 (unat c) @ quote_units rest
      else c # quote_units rest)"

definition quote :: "jsstring \<Rightarrow> jsstring" where
  "quote s = [34] @ quote_units s @ [34]"

fun join_comma :: "jsstring list \<Rightarrow> jsstring" where
  "join_comma [] = []"
| "join_comma [x] = x"
| "join_comma (x # y # ys) = x @ js '','' @ join_comma (y # ys)"

fun JSON_stringify :: "json \<Rightarrow> jsstring" where
  "JSON_stringify JNull = js ''null''"
| "JSON_stringify (JBool b) = (if b then js ''true'' else js ''false'')"
| "JSON_stringify (JNum m e) = number_to_string m e"
| "JSON_stringify (JStr s) = quote s"
| "JSON_stringify (JArr xs) = js ''['' @ join_comma (map JSON_stringify xs) @ js '']''"
| "JSON_stringify (JObj kvs) =
     js ''{'' @ join_comma (map (\<lambda>(k, v). quote k @ js '':'' @ JSON_stringify v) kvs) @ js ''}''"

subsection \<open>JSON.parse\<close>

definition json_ws :: "16 word \<Rightarrow> bool" where
  "json_ws c \<longleftrightarrow> c = 9 \<or> c = 10 \<or> c = 13 \<or> c = 32"

definition skip_ws :: "jsstring \<Rightarrow> jsstring" where
  "skip_ws s = dropWhile json_ws s"

definition is_digit :: "16 word \<Rightarrow> bool" where
  "is_digit c \<longleftrightarrow> 48 \<le> c \<and> c \<le> 57"

definition hex_val :: "16 word \<Rightarrow> nat option" where
  "hex_val c =
     (let x = unat c
      in if 48 \<le> x \<and> x \<le> 57 then Some (x - 48)
         else if 97 \<le> x \<and> x \<le> 102 then Some (x - 87)
         else if 65 \<le> x \<and> x \<le> 70 then Some (x - 55)
         else None)"

definition unescape :: "16 word \<Rightarrow> 16 word option" where
  "unescape e =
     (if e = 34 then Some 34
      else if e = 92 then Some 92
      else if e = 47 then Some 47
      else if e = 98 then Some 8
      else if e = 102 then Some 12
      else if e = 110 then Some 10
      else if e = 114 then Some 13
      else if e = 116 then Some 9
      else None)"

text \<open>The characters of a string after its opening quote, up to the closing one.\<close>

fun parse_string_body :: "jsstring \<Rightarrow> (jsstring \<times> jsstring) option" where
  "parse_string_body [] = None"
| "parse_string_body (c # cs) =
     (if c = 34 then Some ([], cs)
      else if c = 92 then
        (case cs of
           [] \<Rightarrow> None
         | e # cs' \<Rightarrow>
             if e = 117 then
               (case cs' of
                  h1 # h2 # h3 # h4 # r \<Rightarrow>
                    (case (hex_val h1, hex_val h2, hex_val h3, hex_val h4) of
                       (Some a, Some b, Some c, Some d) \<Rightarrow>
                         (case parse_string_body r of
                            None \<Rightarrow> None
                          | Some (str, r') \<Rightarrow>
                              Some (of_nat (a * 4096 + b * 256 + c * 16 + d) # str, r'))
                     | _ \<Rightarrow> None)
                | _ \<Rightarrow> None)
             else
               (case unescape e of
                  None \<Rightarrow> None
                | Some ch \<Rightarrow>
                    (case parse_string_body cs' of
                       None \<Rightarrow> None
                     | Some (str, r') \<Rightarrow> Some (ch # str, r'))))
      else if c < 32 then None
      else (case parse_string_body cs of
              None \<Rightarrow> None
            | Some (str, r') \<Rightarrow> Some (c # str, r')))"

definition digits_value :: "jsstring \<Rightarrow> int" where
  "digits_value ds = foldl (\<lambda>a d. a * 10 + (uint d - 48)) 0 ds"

text \<open>
  A number: optional minus; \<open>0\<close> or a digit sequence without leading zero; an optional
  fraction and an optional exponent, each with at least one digit.
\<close>

definition parse_number :: "jsstring \<Rightarrow> (json \<times> jsstring) option" where
  "parse_number s =
     (let neg = (s \<noteq> [] \<and> hd s = 45);
          s1 = (if neg then tl s else s);
          ds = (if s1 \<noteq> [] \<and> hd s1 = 48 then [48] else takeWhile is_digit s1);
          s2 = drop (length ds) s1
      in if ds = [] then None
         else
           (let has_frac = (s2 \<noteq> [] \<and> hd s2 = 46);
                fs = (if has_frac then takeWhile is_digit (tl s2) else []);
                s3 = (if has_frac then drop (length fs) (tl s2) else s2)
            in if has_frac \<and> fs = [] then None
               else
                 (let has_exp = (s3 \<noteq> [] \<and> (hd s3 = 101 \<or> hd s3 = 69));
                      s4 = (if has_exp then tl s3 else s3);
                      eneg = (has_exp \<and> s4 \<noteq> [] \<and> hd s4 = 45);
                      s5 = (if has_exp \<and> s4 \<noteq> [] \<and> (hd s4 = 45 \<or> hd s4 = 43) then tl s4 else s4);
                      es = (if has_exp then takeWhile is_digit s5 else []);
                      s6 = drop (length es) s5
                  in if has_exp \<and> es = [] then None
                     else
                       (let mant = digits_value (ds @ fs);
                            ex = digits_value es;
                            (m, e) = normalise (if neg then - mant else mant)
                                       ((if eneg then - ex else ex) - int (length fs))
                        in Some (JNum m e, s6)))))"

definition parse_scalar :: "jsstring \<Rightarrow> (json \<times> jsstring) option" where
  "parse_scalar s =
     (if take 4 s = js ''null'' then Some (JNull, drop 4 s)
      else if take 4 s = js ''true'' then Some (JBool True, drop 4 s)
      else if take 5 s = js ''false'' then Some (JBool False, drop 5 s)
      else if s \<noteq> [] \<and> hd s = 34 then
        (case parse_string_body (tl s) of
           None \<Rightarrow> None
         | Some (str, r) \<Rightarrow> Some (JStr str, r))
      else parse_number s)"

text \<open>
  Properties are created in the order of the text; a repeated key replaces the value of
  the earlier one and keeps its place. (JavaScript enumerates keys that are array indices
  before the others; the order of properties plays no part in what the program reads.)
\<close>

definition obj_set :: "(jsstring \<times> json) list \<Rightarrow> jsstring \<Rightarrow> json \<Rightarrow> (jsstring \<times> json) list" where
  "obj_set kvs k v =
     (if k \<in> set (map fst kvs) then map (\<lambda>(k', v'). if k' = k then (k', v) else (k', v')) kvs
      else kvs @ [(k, v)])"

definition make_object :: "(jsstring \<times> json) list \<Rightarrow> (jsstring \<times> json) list" where
  "make_object ms = foldl (\<lambda>kvs (k, v). obj_set kvs k v) [] ms"

lemma skip_ws_Cons_length: "skip_ws s = c # cs \<Longrightarrow> length cs < length s"
proof -
  assume "skip_ws s = c # cs"
  then have "length (c # cs) \<le> length s"
    unfolding skip_ws_def by (metis length_dropWhile_le)
  then show ?thesis by simp
qed

text \<open>
  A value, the elements of an array after its opening bracket, and the members of an
  object after its opening brace; each returns what it read and the rest of the text.
  The comparisons of lengths serve the termination proof; a value, once read, has
  consumed a character, so they hold whenever they are reached (shown with the
  properties of \<open>JSON.parse\<close>).
\<close>

function parse_value :: "jsstring \<Rightarrow> (json \<times> jsstring) option"
  and parse_elems :: "jsstring \<Rightarrow> (json list \<times> jsstring) option"
  and parse_members :: "jsstring \<Rightarrow> ((jsstring \<times> json) list \<times> jsstring) option"
where
  "parse_value s =
     (case skip_ws s of
        [] \<Rightarrow> None
      | c # cs \<Rightarrow>
          if c = 91 then
            (case skip_ws cs of
               [] \<Rightarrow> None
             | d # ds \<Rightarrow>
                 if d = 93 then Some (JArr [], ds)
                 else (case parse_elems cs of
                         None \<Rightarrow> None
                       | Some (vs, r) \<Rightarrow> Some (JArr vs, r)))
          else if c = 123 then
            (case skip_ws cs of
               [] \<Rightarrow> None
             | d # ds \<Rightarrow>
                 if d = 125 then Some (JObj [], ds)
                 else (case parse_members cs of
                         None \<Rightarrow> None
                       | Some (ms, r) \<Rightarrow> Some (JObj (make_object ms), r)))
          else parse_scalar (c # cs))"
| "parse_elems s =
     (case parse_value s of
        None \<Rightarrow> None
      | Some (v, r) \<Rightarrow>
          if length r < length s then
            (case skip_ws r of
               [] \<Rightarrow> None
             | d # ds \<Rightarrow>
                 if d = 44 then
                   (case parse_elems ds of
                      None \<Rightarrow> None
                    | Some (vs, r') \<Rightarrow> Some (v # vs, r'))
                 else if d = 93 then Some ([v], ds)
                 else None)
          else None)"
| "parse_members s =
     (case skip_ws s of
        [] \<Rightarrow> None
      | c # cs \<Rightarrow>
          if c = 34 then
            (case parse_string_body cs of
               None \<Rightarrow> None
             | Some (k, r1) \<Rightarrow>
                 (case skip_ws r1 of
                    [] \<Rightarrow> None
                  | d # ds \<Rightarrow>
                      if d = 58 \<and> length ds < length s then
                        (case parse_value ds of
                           None \<Rightarrow> None
                         | Some (v, r2) \<Rightarrow>
                             if length r2 < length s then
                               (case skip_ws r2 of
                                  [] \<Rightarrow> None
                                | e # es \<Rightarrow>
                                    if e = 44 then
                                      (case parse_members es of
                                         None \<Rightarrow> None
                                       | Some (ms, r3) \<Rightarrow> Some ((k, v) # ms, r3))
                                    else if e = 125 then Some ([(k, v)], es)
                                    else None)
                             else None)
                      else None))
          else None)"
  by pat_completeness auto
termination
  by (relation "measures
        [\<lambda>x. case x of Inl s \<Rightarrow> length s | Inr (Inl s) \<Rightarrow> length s | Inr (Inr s) \<Rightarrow> length s,
         \<lambda>x. case x of Inl s \<Rightarrow> 0 | Inr (Inl s) \<Rightarrow> 1 | Inr (Inr s) \<Rightarrow> 0]")
     (auto dest: skip_ws_Cons_length)

declare parse_value.simps [simp del] parse_elems.simps [simp del] parse_members.simps [simp del]

definition JSON_parse :: "jsstring \<Rightarrow> js_error + json" where
  "JSON_parse text =
     (case parse_value text of
        None \<Rightarrow> Inl SyntaxError
      | Some (v, r) \<Rightarrow> if skip_ws r = [] then Inr v else Inl SyntaxError)"

section \<open>HMAC-SHA-256 (crypto.subtle with \<open>{ name: 'HMAC', hash: 'SHA-256' }\<close>)\<close>

text \<open>
  SHA-256 as in FIPS 180-4, on bytes; 32-bit words wrap around. The round constants and
  the initial hash value are written in decimal.
\<close>

type_synonym u32 = "32 word"

definition K256 :: "u32 list" where
  "K256 =
    [1116352408, 1899447441, 3049323471, 3921009573, 961987163, 1508970993, 2453635748, 2870763221,
     3624381080, 310598401, 607225278, 1426881987, 1925078388, 2162078206, 2614888103, 3248222580,
     3835390401, 4022224774, 264347078, 604807628, 770255983, 1249150122, 1555081692, 1996064986,
     2554220882, 2821834349, 2952996808, 3210313671, 3336571891, 3584528711, 113926993, 338241895,
     666307205, 773529912, 1294757372, 1396182291, 1695183700, 1986661051, 2177026350, 2456956037,
     2730485921, 2820302411, 3259730800, 3345764771, 3516065817, 3600352804, 4094571909, 275423344,
     430227734, 506948616, 659060556, 883997877, 958139571, 1322822218, 1537002063, 1747873779,
     1955562222, 2024104815, 2227730452, 2361852424, 2428436474, 2756734187, 3204031479, 3329325298]"

definition H256 :: "u32 list" where
  "H256 =
    [1779033703, 3144134277, 1013904242, 2773480762, 1359893119, 2600822924, 528734635, 1541459225]"

definition Ch :: "u32 \<Rightarrow> u32 \<Rightarrow> u32 \<Rightarrow> u32" where
  "Ch x y z = (x AND y) XOR (NOT x AND z)"

definition Maj :: "u32 \<Rightarrow> u32 \<Rightarrow> u32 \<Rightarrow> u32" where
  "Maj x y z = (x AND y) XOR (x AND z) XOR (y AND z)"

definition Sigma0 :: "u32 \<Rightarrow> u32" where
  "Sigma0 x = word_rotr 2 x XOR word_rotr 13 x XOR word_rotr 22 x"

definition Sigma1 :: "u32 \<Rightarrow> u32" where
  "Sigma1 x = word_rotr 6 x XOR word_rotr 11 x XOR word_rotr 25 x"

definition sigma0 :: "u32 \<Rightarrow> u32" where
  "sigma0 x = word_rotr 7 x XOR word_rotr 18 x XOR drop_bit 3 x"

definition sigma1 :: "u32 \<Rightarrow> u32" where
  "sigma1 x = word_rotr 17 x XOR word_rotr 19 x XOR drop_bit 10 x"

definition be64 :: "64 word \<Rightarrow> byte list" where
  "be64 w = map (\<lambda>i. ucast (drop_bit (8 * i) w)) [7, 6, 5, 4, 3, 2, 1, 0]"

definition sha_pad :: "byte list \<Rightarrow> byte list" where
  "sha_pad msg =
     msg @ [128] @ replicate ((119 - length msg mod 64) mod 64) 0 @ be64 (of_nat (8 * length msg))"

fun be32 :: "byte list \<Rightarrow> u32 list" where
  "be32 (a # b # c # d # rest) =
     (push_bit 24 (ucast a) OR push_bit 16 (ucast b) OR push_bit 8 (ucast c) OR ucast d) # be32 rest"
| "be32 _ = []"

definition be32_bytes :: "u32 \<Rightarrow> byte list" where
  "be32_bytes w = [ucast (drop_bit 24 w), ucast (drop_bit 16 w), ucast (drop_bit 8 w), ucast w]"

fun schedule :: "nat \<Rightarrow> u32 list \<Rightarrow> u32 list" where
  "schedule 0 w = w"
| "schedule (Suc n) w =
     (let t = length w
      in schedule n (w @ [sigma1 (w ! (t - 2)) + w ! (t - 7) + sigma0 (w ! (t - 15)) + w ! (t - 16)]))"

fun sha_round :: "u32 list \<Rightarrow> u32 \<times> u32 \<Rightarrow> u32 list" where
  "sha_round [a, b, c, d, e, f, g, h] (k, w) =
     (let t1 = h + Sigma1 e + Ch e f g + k + w;
          t2 = Sigma0 a + Maj a b c
      in [t1 + t2, a, b, c, d + t1, e, f, g])"
| "sha_round s _ = s"

definition sha_block :: "u32 list \<Rightarrow> byte list \<Rightarrow> u32 list" where
  "sha_block hs block =
     map2 (+) hs (foldl sha_round hs (zip K256 (schedule 48 (be32 block))))"

function chunks64 :: "byte list \<Rightarrow> byte list list" where
  "chunks64 bs = (if bs = [] then [] else take 64 bs # chunks64 (drop 64 bs))"
  by pat_completeness auto
termination
  by (relation "measure length") auto

declare chunks64.simps [simp del]

definition sha256 :: "byte list \<Rightarrow> byte list" where
  "sha256 msg = concat (map be32_bytes (foldl sha_block H256 (chunks64 (sha_pad msg))))"

text \<open>
  HMAC as in RFC 2104 with a block of 64 bytes: a longer key is hashed first, a shorter one
  is filled with zero bytes.
\<close>

definition hmac_key :: "byte list \<Rightarrow> byte list" where
  "hmac_key k =
     (let k0 = (if 64 < length k then sha256 k else k)
      in k0 @ replicate (64 - length k0) 0)"

definition hmac_sha256 :: "byte list \<Rightarrow> byte list \<Rightarrow> byte list" where
  "hmac_sha256 k msg =
     (let k' = hmac_key k
      in sha256 (map (\<lambda>b. b XOR 92) k' @ sha256 (map (\<lambda>b. b XOR 54) k' @ msg)))"

text \<open>
  \<open>importKey\<close>: the raw key is the UTF-8 encoding of the secret; importing an HMAC key
  of length zero is a \<open>DataError\<close>. \<open>crypto.subtle.sign\<close> returns the tag;
  \<open>crypto.subtle.verify\<close> computes it again and compares.
\<close>

definition importKey :: "jsstring \<Rightarrow> js_error + byte list" where
  "importKey secret =
     (let raw = TextEncode secret in if raw = [] then Inl DataError else Inr raw)"

definition subtle_sign :: "byte list \<Rightarrow> byte list \<Rightarrow> byte list" where
  "subtle_sign key data = hmac_sha256 key data"

definition subtle_verify :: "byte list \<Rightarrow> byte list \<Rightarrow> byte list \<Rightarrow> bool" where
  "subtle_verify key signature data \<longleftrightarrow> hmac_sha256 key data = signature"

section \<open>Signed token codec (lib/jwt.ts: signJWT, verifyJWT)\<close>

text \<open>\<open>s.split('.')\<close>, for any one-character separator.\<close>

fun split_on :: "16 word \<Rightarrow> jsstring \<Rightarrow> jsstring list" where
  "split_on sep [] = [[]]"
| "split_on sep (c # cs) =
     (if c = sep then [] # split_on sep cs
      else (case split_on sep cs of
              [] \<Rightarrow> [[c]]
            | p # ps \<Rightarrow> (c # p) # ps))"

definition jwt_header :: json where
  "jwt_header = JObj [(js ''alg'', JStr (js ''HS256'')), (js ''typ'', JStr (js ''JWT''))]"

text \<open>
  \<open>signJWT\<close>. \<open>Inl\<close> is the rejection of the returned promise. The arrays handed to
  \<open>b64url\<close> are whole buffers, so \<open>buf.buffer\<close> has the bytes of \<open>buf\<close>.
\<close>

definition signJWT :: "json \<Rightarrow> jsstring \<Rightarrow> js_error + jsstring" where
  "signJWT payload secret =
     (let header = b64url (TextEncode (JSON_stringify jwt_header));
          body = b64url (TextEncode (JSON_stringify payload))
      in case importKey secret of
           Inl err \<Rightarrow> Inl err
         | Inr key \<Rightarrow>
             (let sig = subtle_sign key (TextEncode (header @ js ''.'' @ body))
              in Inr (header @ js ''.'' @ body @ js ''.'' @ b64url sig)))"

text \<open>
  \<open>v.k\<close> for a parsed JSON value \<open>v\<close> other than \<open>null\<close>: the property of an object,
  \<open>undefined\<close> (\<open>None\<close>) where the object has none; the properties \<open>exp\<close> and \<open>sub\<close> that
  the program reads are neither a number nor a string on any array, string, number or
  boolean.
\<close>

definition get_prop :: "json \<Rightarrow> jsstring \<Rightarrow> json option" where
  "get_prop v k = (case v of JObj kvs \<Rightarrow> map_of kvs k | _ \<Rightarrow> None)"

text \<open>
  \<open>verifyJWT\<close>; \<open>now\<close> is \<open>Date.now()\<close>, in milliseconds. \<open>Inr None\<close> is the result
  \<open>null\<close>. The key is imported and the signature segment decoded before the \<open>try\<close>
  block; inside it, the errors of decoding and parsing the body, and of reading \<open>exp\<close>
  of \<open>null\<close>, are caught.
\<close>

definition verifyJWT :: "jsstring \<Rightarrow> jsstring \<Rightarrow> int \<Rightarrow> js_error + json option" where
  "verifyJWT token secret now =
     (case split_on 46 token of
        [header, body, sig] \<Rightarrow>
          (case importKey secret of
             Inl err \<Rightarrow> Inl err
           | Inr key \<Rightarrow>
               (case b64urlDecode sig of
                  Inl err \<Rightarrow> Inl err
                | Inr signature \<Rightarrow>
                    if \<not> subtle_verify key signature (TextEncode (header @ js ''.'' @ body))
                    then Inr None
                    else
                      (case b64urlDecode body of
                         Inl err \<Rightarrow> Inr None
                       | Inr bytes \<Rightarrow>
                           (case JSON_parse (TextDecode bytes) of
                              Inl err \<Rightarrow> Inr None
                            | Inr payload \<Rightarrow>
                                if payload = JNull then Inr None
                                else
                                  (case get_prop payload (js ''exp'') of
                                     Some (JNum m e) \<Rightarrow>
                                       if num_less m e (now div 1000) then Inr None
                                       else Inr (Some payload)
                                   | _ \<Rightarrow> Inr (Some payload))))))
      | _ \<Rightarrow> Inr None)"

text \<open>
  Names for parts of the two functions: the segments that \<open>signJWT\<close> computes, and what
  the \<open>try\<close> block of \<open>verifyJWT\<close> returns for a body segment.
\<close>

definition sign_header :: jsstring where
  "sign_header = b64url (TextEncode (JSON_stringify jwt_header))"

definition sign_body :: "json \<Rightarrow> jsstring" where
  "sign_body payload = b64url (TextEncode (JSON_stringify payload))"

definition sign_signature :: "json \<Rightarrow> byte list \<Rightarrow> jsstring" where
  "sign_signature payload key =
     b64url (subtle_sign key (TextEncode (sign_header @ js ''.'' @ sign_body payload)))"

definition check_exp :: "json \<Rightarrow> int \<Rightarrow> json option" where
  "check_exp payload now =
     (if payload = JNull then None
      else
        (case get_prop payload (js ''exp'') of
           Some (JNum m e) \<Rightarrow> if num_less m e (now div 1000) then None else Some payload
         | _ \<Rightarrow> Some payload))"

definition read_body :: "jsstring \<Rightarrow> int \<Rightarrow> json option" where
  "read_body b now =
     (case b64urlDecode b of
        Inl err \<Rightarrow> None
      | Inr bytes \<Rightarrow>
          (case JSON_parse (TextDecode bytes) of
             Inl err \<Rightarrow> None
           | Inr payload \<Rightarrow> check_exp payload now))"


section \<open>Requests, responses and the session cookie\<close>

text \<open>
  A response: status, the value given to \<open>c.json\<close> (or \<open>None\<close> for an empty body) and
  the headers the program sets itself.
\<close>

record response =
  status :: nat
  body :: "json option"
  headers :: "(jsstring \<times> jsstring) list"

definition c_json :: "json \<Rightarrow> nat \<Rightarrow> response" where
  "c_json obj st = \<lparr>status = st, body = Some obj, headers = []\<rparr>"

definition COOKIE_NAME :: jsstring where
  "COOKIE_NAME = js ''wokspec_session''"

definition SESSION_TTL :: int where
  "SESSION_TTL = 60 * 60 * 24 * 7"

definition POST_LOGIN_REDIRECT :: jsstring where
  "POST_LOGIN_REDIRECT = js ''https://wokspec.org/account''"

text \<open>\<open>String(n)\<close> and \<open>`${n}`\<close> for an integer \<open>n\<close>.\<close>

definition String_of_int :: "int \<Rightarrow> jsstring" where
  "String_of_int n = (case normalise n 0 of (m, e) \<Rightarrow> number_to_string m e)"

definition sessionCookie :: "jsstring \<Rightarrow> jsstring" where
  "sessionCookie token =
     COOKIE_NAME @ js ''='' @ token @ js ''; HttpOnly; Secure; SameSite=Lax; Path=/; Max-Age=''
       @ String_of_int SESSION_TTL"

definition clearCookie :: jsstring where
  "clearCookie = COOKIE_NAME @ js ''=; HttpOnly; Secure; SameSite=Lax; Path=/; Max-Age=0''"

text \<open>
  \<open>cookieHeader.match(/wokspec_session=([^;]+)/)?.[1]\<close>: the first place where the name
  and \<open>=\<close> are followed by at least one character other than \<open>;\<close>, and the longest run
  of such characters there.
\<close>

fun match_session :: "jsstring \<Rightarrow> jsstring option" where
  "match_session [] = None"
| "match_session (c # cs) =
     (let n = length (COOKIE_NAME @ js ''='');
          v = takeWhile (\<lambda>x. x \<noteq> 59) (drop n (c # cs))
      in if take n (c # cs) = COOKIE_NAME @ js ''='' \<and> v \<noteq> [] then Some v
         else match_session cs)"

section \<open>Auth gate (middleware.ts: requireAuth) and GET /auth/me (routes/auth.ts)\<close>

text \<open>\<open>AuthUser\<close> (types.ts); the field names carry a prefix here.\<close>

record auth_user =
  au_id :: jsstring
  au_email :: "jsstring option"
  au_username :: "jsstring option"
  au_display_name :: "jsstring option"
  au_avatar_url :: "jsstring option"

text \<open>
  \<open>SELECT id, email, username, display_name, avatar_url FROM users WHERE id = ?\<close>,
  \<open>.first()\<close>.
\<close>

definition select_user :: "db \<Rightarrow> jsstring \<Rightarrow> auth_user option" where
  "select_user d uid =
     map_option
       (\<lambda>u. \<lparr>au_id = u_id u, au_email = u_email u, au_username = u_username u,
              au_display_name = u_display_name u, au_avatar_url = u_avatar_url u\<rparr>)
       (find (\<lambda>u. u_id u = uid) (users d))"

text \<open>\<open>!v\<close> for a JSON value.\<close>

definition falsy :: "json \<Rightarrow> bool" where
  "falsy v \<longleftrightarrow> v = JNull \<or> v = JBool False \<or> v = JNum 0 0 \<or> v = JStr []"

definition error_body :: "jsstring \<Rightarrow> jsstring \<Rightarrow> int \<Rightarrow> json" where
  "error_body code message st =
     JObj [(js ''data'', JNull),
           (js ''error'', JObj [(js ''code'', JStr code), (js ''message'', JStr message),
                               (js ''status'', jnum st)])]"

text \<open>
  The unauthenticated failure of the middleware:
  \<open>c.json({ data: null, error: { code: 'UNAUTHORIZED', message, status: 401 } }, 401)\<close>.
\<close>

definition unauthorized :: "jsstring \<Rightarrow> response" where
  "unauthorized message = c_json (error_body (js ''UNAUTHORIZED'') message 401) 401"

text \<open>
  What the middleware does with a request: answer it, or set \<open>user\<close> in the context and
  call \<open>next()\<close>.
\<close>

datatype gate = Respond response | Next auth_user

definition requireAuth :: "jsstring option \<Rightarrow> jsstring \<Rightarrow> db \<Rightarrow> int \<Rightarrow> js_error + gate" where
  "requireAuth cookie JWT_SECRET d now =
     (let cookieHeader = (case cookie of None \<Rightarrow> [] | Some h \<Rightarrow> h)
      in case match_session cookieHeader of
           None \<Rightarrow>
             Inr (Respond (unauthorized (js ''Not authenticated'')))
         | Some token \<Rightarrow>
             (case verifyJWT token JWT_SECRET now of
                Inl err \<Rightarrow> Inl err
              | Inr payload \<Rightarrow>
                  (case (case payload of
                           None \<Rightarrow> None
                         | Some p \<Rightarrow>
                             if falsy p then None
                             else (case get_prop p (js ''sub'') of
                                     Some (JStr sub) \<Rightarrow> Some sub
                                   | _ \<Rightarrow> None)) of
                     None \<Rightarrow>
                       Inr (Respond (unauthorized (js ''Invalid session'')))
                   | Some sub \<Rightarrow>
                       (case select_user d sub of
                          None \<Rightarrow>
                            Inr (Respond (unauthorized (js ''User not found'')))
                        | Some row \<Rightarrow> Inr (Next row)))))"

definition json_of_option :: "jsstring option \<Rightarrow> json" where
  "json_of_option v = (case v of None \<Rightarrow> JNull | Some s \<Rightarrow> JStr s)"

definition user_json :: "auth_user \<Rightarrow> json" where
  "user_json u =
     JObj [(js ''id'', JStr (au_id u)), (js ''email'', json_of_option (au_email u)),
           (js ''username'', json_of_option (au_username u)),
           (js ''display_name'', json_of_option (au_display_name u)),
           (js ''avatar_url'', json_of_option (au_avatar_url u))]"

definition me_error :: "jsstring \<Rightarrow> json" where
  "me_error message = JObj [(js ''ok'', JBool False), (js ''error'', JStr message)]"

definition me :: "jsstring option \<Rightarrow> jsstring \<Rightarrow> db \<Rightarrow> int \<Rightarrow> js_error + response" where
  "me cookie JWT_SECRET d now =
     (let cookieHeader = (case cookie of None \<Rightarrow> [] | Some h \<Rightarrow> h)
      in case match_session cookieHeader of
           None \<Rightarrow> Inr (c_json (me_error (js ''Unauthorized'')) 401)
         | Some token \<Rightarrow>
             (case verifyJWT token JWT_SECRET now of
                Inl err \<Rightarrow> Inl err
              | Inr payload \<Rightarrow>
                  (case (case payload of
                           None \<Rightarrow> None
                         | Some p \<Rightarrow>
                             if falsy p then None
                             else (case get_prop p (js ''sub'') of
                                     Some (JStr sub) \<Rightarrow> Some sub
                                   | _ \<Rightarrow> None)) of
                     None \<Rightarrow> Inr (c_json (me_error (js ''Invalid session'')) 401)
                   | Some sub \<Rightarrow>
                       (case select_user d sub of
                          None \<Rightarrow> Inr (c_json (me_error (js ''User not found'')) 401)
                        | Some user \<Rightarrow>
                            Inr (c_json (JObj [(js ''ok'', JBool True), (js ''user'', user_json user)])
                                   200)))))"

definition logout :: response where
  "logout =
     \<lparr>status = 200, body = Some (JObj [(js ''ok'', JBool True)]),
      headers = [(js ''Content-Type'', js ''application/json''), (js ''Set-Cookie'', clearCookie)]\<rparr>"

section \<open>OAuth flow controller (routes/auth.ts: the callback handlers)\<close>

text \<open>
  The provider endpoints are functions of what the program sends them, given to the
  handlers; a response has the type the program reads it at (\<open>.json<...>()\<close>). Every
  \<open>fetch\<close> a handler performs is recorded, in order.
\<close>

record token_response =
  access_token :: "jsstring option"

record gh_user =
  gh_id :: int
  gh_login :: jsstring
  gh_name :: "jsstring option"
  gh_avatar_url :: jsstring
  gh_email :: "jsstring option"

record gh_email_entry =
  ge_email :: jsstring
  ge_primary :: bool
  ge_verified :: bool

record g_user =
  g_id :: jsstring
  g_email :: jsstring
  g_name :: jsstring
  g_picture :: jsstring

record d_user =
  d_id :: jsstring
  d_username :: jsstring
  d_global_name :: "jsstring option"
  d_email :: "jsstring option"
  d_avatar :: "jsstring option"

record upstream =
  token_endpoint :: "provider \<Rightarrow> jsstring \<Rightarrow> token_response"
  github_user :: "jsstring \<Rightarrow> gh_user"
  github_emails :: "jsstring \<Rightarrow> gh_email_entry list"
  google_userinfo :: "jsstring \<Rightarrow> g_user"
  discord_me :: "jsstring \<Rightarrow> d_user"

datatype upstream_call =
    TokenExchange provider jsstring
  | FetchProfile provider jsstring
  | FetchEmails jsstring

text \<open>
  What a handler leaves behind: the response (or the exception), both stores, and the
  provider calls it made.
\<close>

record outcome =
  result :: "js_error + response"
  kv_after :: kv
  db_after :: db
  fetches :: "upstream_call list"

definition createSession :: "jsstring \<Rightarrow> jsstring \<Rightarrow> int \<Rightarrow> js_error + jsstring" where
  "createSession JWT_SECRET userId now =
     signJWT (JObj [(js ''sub'', JStr userId), (js ''exp'', jnum (now div 1000 + SESSION_TTL))])
       JWT_SECRET"

definition error_json :: "jsstring \<Rightarrow> json" where
  "error_json message = JObj [(js ''error'', JStr message)]"

text \<open>\<open>!s\<close> for a value that is a string or undefined (or \<open>null\<close>).\<close>

definition absent :: "jsstring option \<Rightarrow> bool" where
  "absent s \<longleftrightarrow> s = None \<or> s = Some []"

text \<open>
  The last statements of each callback handler: \<open>upsertUser\<close>, \<open>createSession\<close>, and the
  redirect that sets the cookie.
\<close>

definition login ::
  "jsstring \<Rightarrow> kv \<Rightarrow> db \<Rightarrow> upstream_call list \<Rightarrow> provider \<Rightarrow> jsstring \<Rightarrow> profile \<Rightarrow> jsstring
   \<Rightarrow> jsstring \<Rightarrow> jsstring \<Rightarrow> jsstring \<Rightarrow> int \<Rightarrow> outcome" where
  "login JWT_SECRET kv d trace p providerUserId prof accessToken uuid1 uuid2 sqlnow now =
     (case upsertUser d p providerUserId prof accessToken uuid1 uuid2 sqlnow of
        (Inl err, d') \<Rightarrow> \<lparr>result = Inl err, kv_after = kv, db_after = d', fetches = trace\<rparr>
      | (Inr userId, d') \<Rightarrow>
          (case createSession JWT_SECRET userId now of
             Inl err \<Rightarrow> \<lparr>result = Inl err, kv_after = kv, db_after = d', fetches = trace\<rparr>
           | Inr token \<Rightarrow>
               \<lparr>result = Inr \<lparr>status = 302, body = None,
                                headers = [(js ''Location'', POST_LOGIN_REDIRECT),
                                           (js ''Set-Cookie'', sessionCookie token)]\<rparr>,
                kv_after = kv, db_after = d', fetches = trace\<rparr>))"

text \<open>
  \<open>GET /github/callback\<close>. \<open>code\<close> and \<open>state\<close> are the query parameters, \<open>now\<close> is
  \<open>Date.now()\<close>; the key-value store runs on the same clock, in seconds.
\<close>

definition github_callback ::
  "upstream \<Rightarrow> jsstring \<Rightarrow> kv \<Rightarrow> db \<Rightarrow> jsstring option \<Rightarrow> jsstring option
   \<Rightarrow> jsstring \<Rightarrow> jsstring \<Rightarrow> jsstring \<Rightarrow> int \<Rightarrow> outcome" where
  "github_callback up JWT_SECRET kv d code state uuid1 uuid2 sqlnow now =
     (if absent code \<or> absent state
      then \<lparr>result = Inr (c_json (error_json (js ''Missing code or state'')) 400),
            kv_after = kv, db_after = d, fetches = []\<rparr>
      else
        (case consumeState kv (the state) (nat (now div 1000)) of
           (False, kv') \<Rightarrow>
             \<lparr>result = Inr (c_json (error_json (js ''Invalid state'')) 400),
              kv_after = kv', db_after = d, fetches = []\<rparr>
         | (True, kv') \<Rightarrow>
             (let tokenData = token_endpoint up Github (the code);
                  trace1 = [TokenExchange Github (the code)]
              in if absent (access_token tokenData)
                 then \<lparr>result = Inr (c_json (error_json (js ''Token exchange failed'')) 400),
                       kv_after = kv', db_after = d, fetches = trace1\<rparr>
                 else
                   (let tok = the (access_token tokenData);
                        ghUser = github_user up tok;
                        trace2 = trace1 @ [FetchProfile Github tok];
                        emails = github_emails up tok;
                        email' =
                          (if absent (gh_email ghUser)
                           then (case find (\<lambda>e. ge_primary e \<and> ge_verified e) emails of
                                   Some e \<Rightarrow> Some (ge_email e)
                                 | None \<Rightarrow>
                                     (case emails of [] \<Rightarrow> None | e # _ \<Rightarrow> Some (ge_email e)))
                           else gh_email ghUser);
                        trace3 = (if absent (gh_email ghUser) then trace2 @ [FetchEmails tok]
                                  else trace2)
                    in login JWT_SECRET kv' d trace3 Github (String_of_int (gh_id ghUser))
                         \<lparr>email = email', username = Some (gh_login ghUser),
                          displayName = gh_name ghUser, avatarUrl = Some (gh_avatar_url ghUser)\<rparr>
                         tok uuid1 uuid2 sqlnow now))))"

text \<open>\<open>GET /google/callback\<close>.\<close>

definition google_callback ::
  "upstream \<Rightarrow> jsstring \<Rightarrow> kv \<Rightarrow> db \<Rightarrow> jsstring option \<Rightarrow> jsstring option
   \<Rightarrow> jsstring \<Rightarrow> jsstring \<Rightarrow> jsstring \<Rightarrow> int \<Rightarrow> outcome" where
  "google_callback up JWT_SECRET kv d code state uuid1 uuid2 sqlnow now =
     (if absent code \<or> absent state
      then \<lparr>result = Inr (c_json (error_json (js ''Missing code or state'')) 400),
            kv_after = kv, db_after = d, fetches = []\<rparr>
      else
        (case consumeState kv (the state) (nat (now div 1000)) of
           (False, kv') \<Rightarrow>
             \<lparr>result = Inr (c_json (error_json (js ''Invalid state'')) 400),
              kv_after = kv', db_after = d, fetches = []\<rparr>
         | (True, kv') \<Rightarrow>
             (let tokenData = token_endpoint up Google (the code);
                  trace1 = [TokenExchange Google (the code)]
              in if absent (access_token tokenData)
                 then \<lparr>result = Inr (c_json (error_json (js ''Token exchange failed'')) 400),
                       kv_after = kv', db_after = d, fetches = trace1\<rparr>
                 else
                   (let tok = the (access_token tokenData);
                        gUser = google_userinfo up tok;
                        trace2 = trace1 @ [FetchProfile Google tok]
                    in login JWT_SECRET kv' d trace2 Google (g_id gUser)
                         \<lparr>email = Some (g_email gUser), username = None,
                          displayName = Some (g_name gUser), avatarUrl = Some (g_picture gUser)\<rparr>
                         tok uuid1 uuid2 sqlnow now))))"

text \<open>\<open>GET /discord/callback\<close>.\<close>

definition discord_callback ::
  "upstream \<Rightarrow> jsstring \<Rightarrow> kv \<Rightarrow> db \<Rightarrow> jsstring option \<Rightarrow> jsstring option
   \<Rightarrow> jsstring \<Rightarrow> jsstring \<Rightarrow> jsstring \<Rightarrow> int \<Rightarrow> outcome" where
  "discord_callback up JWT_SECRET kv d code state uuid1 uuid2 sqlnow now =
     (if absent code \<or> absent state
      then \<lparr>result = Inr (c_json (error_json (js ''Missing code or state'')) 400),
            kv_after = kv, db_after = d, fetches = []\<rparr>
      else
        (case consumeState kv (the state) (nat (now div 1000)) of
           (False, kv') \<Rightarrow>
             \<lparr>result = Inr (c_json (error_json (js ''Invalid state'')) 400),
              kv_after = kv', db_after = d, fetches = []\<rparr>
         | (True, kv') \<Rightarrow>
             (let tokenData = token_endpoint up Discord (the code);
                  trace1 = [TokenExchange Discord (the code)]
              in if absent (access_token tokenData)
                 then \<lparr>result = Inr (c_json (error_json (js ''Token exchange failed'')) 400),
                       kv_after = kv', db_after = d, fetches = trace1\<rparr>
                 else
                   (let tok = the (access_token tokenData);
                        dUser = discord_me up tok;
                        trace2 = trace1 @ [FetchProfile Discord tok];
                        avatarUrl' =
                          (if absent (d_avatar dUser) then None
                           else Some (js ''https://cdn.discordapp.com/avatars/'' @ d_id dUser
                                        @ js ''/'' @ the (d_avatar dUser) @ js ''.png''))
                    in login JWT_SECRET kv' d trace2 Discord (d_id dUser)
                         \<lparr>email = d_email dUser, username = Some (d_username dUser),
                          displayName = d_global_name dUser, avatarUrl = avatarUrl'\<rparr>
                         tok uuid1 uuid2 sqlnow now))))"

definition callback ::
  "provider \<Rightarrow> upstream \<Rightarrow> jsstring \<Rightarrow> kv \<Rightarrow> db \<Rightarrow> jsstring option \<Rightarrow> jsstring option
   \<Rightarrow> jsstring \<Rightarrow> jsstring \<Rightarrow> jsstring \<Rightarrow> int \<Rightarrow> outcome" where
  "callback p =
     (case p of Github \<Rightarrow> github_callback | Google \<Rightarrow> google_callback | Discord \<Rightarrow> discord_callback)"

text \<open>
  The theorem at a concrete history: a nonce issued at second 100 into an empty store,
  a consume of another nonce at second 120, the consume at second 699, a second consume
  at second 700; and the same nonce consumed only at second 700.
\<close>

definition demo_rnd :: "byte list" where
  "demo_rnd = [0, 1, 2, 3, 4, 5, 6, 7, 8, 9, 10, 11, 12, 13, 14, 255]"

definition demo_kv :: kv where
  "demo_kv = kv_run (snd (generateState Map.empty demo_rnd 100)) [(120, Consume (js ''zz''))]"

text \<open>
  Example data for the upsert: an empty database, two logins (one by Google with an
  e-mail, one by GitHub without), and the database they leave.
\<close>

definition empty_db :: db where
  "empty_db = \<lparr>users = [], oauth_accounts = []\<rparr>"

definition demo_calls :: "upsert_call list" where
  "demo_calls =
     [\<lparr>c_provider = Google, c_provider_user_id = js ''g1'',
       c_profile = \<lparr>email = Some (js ''a@x''), username = None,
                     displayName = Some (js ''Ann''), avatarUrl = None\<rparr>,
       c_access_token = js ''t1'', c_uuid1 = js ''u-1'', c_uuid2 = js ''k-1'', c_now = js ''d1''\<rparr>,
      \<lparr>c_provider = Github, c_provider_user_id = js ''7'',
       c_profile = \<lparr>email = None, username = Some (js ''bob''),
                     displayName = Some (js ''Bob''), avatarUrl = None\<rparr>,
       c_access_token = js ''t2'', c_uuid1 = js ''u-2'', c_uuid2 = js ''k-2'', c_now = js ''d2''\<rparr>]"

definition demo_db :: db where
  "demo_db = upsert_run empty_db demo_calls"

definition demo_profile :: profile where
  "demo_profile = \<lparr>email = Some (js ''b@x''), username = None, displayName = None,
     avatarUrl = Some (js ''pic'')\<rparr>"

text \<open>Example data for the token codec: a secret and four payloads.\<close>

definition demo_secret :: jsstring where
  "demo_secret = js ''k''"

definition demo_payload :: json where
  "demo_payload = JObj [(js ''sub'', JStr (js ''u1'')), (js ''exp'', jnum 1700000000)]"

definition demo_exp9 :: json where
  "demo_exp9 = JObj [(js ''sub'', JStr (js ''u1'')), (js ''exp'', jnum 9)]"

definition demo_no_exp :: json where
  "demo_no_exp = JObj [(js ''sub'', JStr (js ''u1''))]"

definition demo_text_exp :: json where
  "demo_text_exp = JObj [(js ''sub'', JStr (js ''u1'')), (js ''exp'', JStr (js ''9''))]"

definition demo_token :: "json \<Rightarrow> jsstring" where
  "demo_token payload =
     sign_header @ js ''.'' @ sign_body payload @ js ''.''
       @ sign_signature payload (TextEncode demo_secret)"

text \<open>
  Example data for the handlers: the request header with the session cookie for a
  payload, and provider endpoints that answer every request alike.
\<close>

definition demo_cookie :: "json \<Rightarrow> jsstring" where
  "demo_cookie payload = js ''wokspec_session='' @ demo_token payload"

definition demo_upstream :: upstream where
  "demo_upstream =
     \<lparr>token_endpoint = (\<lambda>p code. \<lparr>access_token = Some (js ''at'')\<rparr>),
      github_user = (\<lambda>tok. \<lparr>gh_id = 7, gh_login = js ''bob'', gh_name = None,
                              gh_avatar_url = js ''pic'', gh_email = None\<rparr>),
      github_emails = (\<lambda>tok. [\<lparr>ge_email = js ''b@x'', ge_primary = True, ge_verified = True\<rparr>]),
      google_userinfo = (\<lambda>tok. \<lparr>g_id = js ''g1'', g_email = js ''a@x'', g_name = js ''Ann'',
                                  g_picture = js ''pic''\<rparr>),
      discord_me = (\<lambda>tok. \<lparr>d_id = js ''d1'', d_username = js ''cy'', d_global_name = None,
                             d_email = None, d_avatar = None\<rparr>)\<rparr>"

section \<open>Properties of the nonce store\<close>

lemma state_key_inj: "state_key a = state_key b \<longleftrightarrow> a = b"
  by (simp add: state_key_def)

lemma kv_step_untouched:
  "\<not> touches n x \<Longrightarrow> kv_step kv x (state_key n) = kv (state_key n)"
proof (cases x)
  case (Pair t op)
  assume "\<not> touches n x"
  with Pair show ?thesis
    by (cases op)
       (auto simp: generateState_def consumeState_def kv_put_def kv_delete_def Let_def
          state_key_inj split: option.splits)
qed

lemma kv_run_untouched:
  "list_all (\<lambda>x. \<not> touches n x) ops \<Longrightarrow> kv_run kv ops (state_key n) = kv (state_key n)"
  unfolding kv_run_def
  by (induction ops arbitrary: kv) (simp_all add: kv_step_untouched)

lemma kv_step_absent:
  "\<not> issues n x \<Longrightarrow> kv (state_key n) = None \<Longrightarrow> kv_step kv x (state_key n) = None"
proof (cases x)
  case (Pair t op)
  assume "\<not> issues n x" and "kv (state_key n) = None"
  with Pair show ?thesis
    by (cases op)
       (auto simp: generateState_def consumeState_def kv_put_def kv_delete_def Let_def
          state_key_inj split: option.splits)
qed

lemma kv_run_absent:
  "list_all (\<lambda>x. \<not> issues n x) ops \<Longrightarrow> kv (state_key n) = None \<Longrightarrow>
   kv_run kv ops (state_key n) = None"
  unfolding kv_run_def
  by (induction ops arbitrary: kv) (simp_all add: kv_step_absent)

lemma consumeState_absent:
  "kv (state_key n) = None \<Longrightarrow> consumeState kv n t = (False, kv)"
  by (simp add: consumeState_def kv_get_def)

lemma consumeState_True_deletes:
  "consumeState kv n t = (True, kv') \<Longrightarrow> kv' = kv_delete kv (state_key n)"
  by (auto simp: consumeState_def split: option.splits if_splits)

lemma generateState_entry:
  "generateState kv rnd t0 = (n, kv1) \<Longrightarrow>
   n = hex_join rnd \<and> kv1 (state_key n) = Some (js ''1'', t0 + 600)"
  by (auto simp: generateState_def kv_put_def Let_def)

text \<open>
  C4. A nonce returned by \<open>generateState\<close> at second \<open>t0\<close>: the first \<open>consumeState\<close> of
  it, after any operations on other nonces and before second \<open>t0 + 600\<close>, returns true
  and deletes the stored key; after that, as long as the same nonce is not issued again,
  every \<open>consumeState\<close> of it returns false, whatever else happens in between; at or after
  second \<open>t0 + 600\<close> the consume returns false; and a nonce whose key is not in the store
  (never issued) is refused, the store unchanged.
\<close>

theorem consumeState_once:
  assumes issue: "generateState kv rnd t0 = (n, kv1)"
    and between: "list_all (\<lambda>x. \<not> touches n x) ops1"
    and kv2: "kv2 = kv_run kv1 ops1"
    and kv3: "kv3 = kv_delete kv2 (state_key n)"
  shows "(t < t0 + 600 \<longrightarrow>
            consumeState kv2 n t = (True, kv3) \<and> kv3 (state_key n) = None \<and>
            (\<forall>ops2 t'. list_all (\<lambda>x. \<not> issues n x) ops2 \<longrightarrow>
               consumeState (kv_run kv3 ops2) n t' = (False, kv_run kv3 ops2)))
       \<and> (t0 + 600 \<le> t \<longrightarrow> consumeState kv2 n t = (False, kv2))
       \<and> (kv0 (state_key m) = None \<longrightarrow> consumeState kv0 m t = (False, kv0))"
proof (intro conjI impI allI)
  have entry: "kv2 (state_key n) = Some (js ''1'', t0 + 600)"
    using generateState_entry [OF issue] kv_run_untouched [OF between, of kv1] kv2
    by auto
  have one: "js ''1'' \<noteq> []"
    by (simp add: js_def)
  show "consumeState kv2 n t = (True, kv3)" if "t < t0 + 600"
    using that entry one kv3 by (simp add: consumeState_def kv_get_def)
  show gone: "kv3 (state_key n) = None"
    using kv3 by (simp add: kv_delete_def)
  show "consumeState (kv_run kv3 ops2) n t' = (False, kv_run kv3 ops2)"
    if "list_all (\<lambda>x. \<not> issues n x) ops2" for ops2 t'
    using kv_run_absent [of n ops2 kv3] that gone by (simp add: consumeState_absent)
  show "consumeState kv2 n t = (False, kv2)" if "t0 + 600 \<le> t"
    using that entry by (simp add: consumeState_def kv_get_def)
  show "consumeState kv0 m t = (False, kv0)" if "kv0 (state_key m) = None"
    using that by (rule consumeState_absent)
qed

theorem consumeState_once_witness:
  "generateState Map.empty demo_rnd 100
     = (hex_join demo_rnd, snd (generateState Map.empty demo_rnd 100))
   \<and> consumeState demo_kv (hex_join demo_rnd) 699
       = (True, kv_delete demo_kv (state_key (hex_join demo_rnd)))
   \<and> consumeState (kv_run (kv_delete demo_kv (state_key (hex_join demo_rnd)))
         [(699, Consume (hex_join demo_rnd))]) (hex_join demo_rnd) 700
       = (False, kv_run (kv_delete demo_kv (state_key (hex_join demo_rnd)))
            [(699, Consume (hex_join demo_rnd))])
   \<and> consumeState demo_kv (hex_join demo_rnd) 700 = (False, demo_kv)
   \<and> consumeState Map.empty (js ''zz'') 700 = (False, Map.empty)"
proof -
  have issue: "generateState Map.empty demo_rnd 100
     = (hex_join demo_rnd, snd (generateState Map.empty demo_rnd 100))"
    by (simp add: generateState_def Let_def)
  have other: "hex_join demo_rnd \<noteq> js ''zz''"
    by (simp add: hex_join_def hex2_def hex_digit_def demo_rnd_def js_def)
  have between: "list_all (\<lambda>x. \<not> touches (hex_join demo_rnd) x) [(120, Consume (js ''zz''))]"
    using other by auto
  have after: "list_all (\<lambda>x. \<not> issues (hex_join demo_rnd) x) [(699, Consume (hex_join demo_rnd))]"
    by simp
  note thm1 = consumeState_once [OF issue between demo_kv_def refl, of 699 Map.empty "js ''zz''"]
  note thm2 = consumeState_once [OF issue between demo_kv_def refl, of 700 Map.empty "js ''zz''"]
  from thm1 have a: "consumeState demo_kv (hex_join demo_rnd) 699
       = (True, kv_delete demo_kv (state_key (hex_join demo_rnd)))"
    by simp
  from thm1 after have b: "consumeState (kv_run (kv_delete demo_kv (state_key (hex_join demo_rnd)))
         [(699, Consume (hex_join demo_rnd))]) (hex_join demo_rnd) 700
       = (False, kv_run (kv_delete demo_kv (state_key (hex_join demo_rnd)))
            [(699, Consume (hex_join demo_rnd))])"
    by simp
  from thm2 have c: "consumeState demo_kv (hex_join demo_rnd) 700 = (False, demo_kv)"
    and d: "consumeState Map.empty (js ''zz'') 700 = (False, Map.empty)"
    by simp_all
  from issue a b c d show ?thesis by simp
qed

section \<open>Properties of the identity upsert\<close>

lemma emails_append: "emails (xs @ ys) = emails xs @ emails ys"
  by (simp add: emails_def List.map_filter_def)

lemma emails_single: "emails [u] = (case u_email u of None \<Rightarrow> [] | Some e \<Rightarrow> [e])"
  by (simp add: emails_def List.map_filter_def split: option.splits)

lemma update_access_token_keeps:
  "users (update_access_token d tok p pid) = users d"
  "map a_id (oauth_accounts (update_access_token d tok p pid)) = map a_id (oauth_accounts d)"
  "map acct_key (oauth_accounts (update_access_token d tok p pid)) = map acct_key (oauth_accounts d)"
  "map a_user_id (oauth_accounts (update_access_token d tok p pid)) = map a_user_id (oauth_accounts d)"
  by (simp_all add: update_access_token_def acct_key_def comp_def)

lemma map_proj_same: "(\<And>x. g (f x) = g x) \<Longrightarrow> map g (map f xs) = map g xs"
  by (induction xs) simp_all

lemma find_map_proj:
  "(\<And>x. P (f x) = P x) \<Longrightarrow> (\<And>x. g (f x) = g x) \<Longrightarrow>
   map_option g (find P (map f xs)) = map_option g (find P xs)"
  by (induction xs) simp_all

lemma update_access_token_ok: "db_ok d \<Longrightarrow> db_ok (update_access_token d tok p pid)"
  unfolding db_ok_def
  by (simp only: update_access_token_keeps)

lemma select_account_update_access_token:
  "select_account (update_access_token d tok p pid) q qid = select_account d q qid"
  unfolding select_account_def update_access_token_def
  by (simp add: find_map_proj)

lemma update_user_profile_keeps:
  assumes "update_user_profile d e dn av now uid = Inr d'"
  shows "oauth_accounts d' = oauth_accounts d"
    and "map u_id (users d') = map u_id (users d)"
    and "distinct (emails (users d'))"
  using assms
  by (auto simp: update_user_profile_def Let_def map_proj_same set_profile_def split: if_splits)

lemma update_user_profile_ok:
  "db_ok d \<Longrightarrow> update_user_profile d e dn av now uid = Inr d' \<Longrightarrow> db_ok d'"
  unfolding db_ok_def
  by (simp add: update_user_profile_keeps)

lemma insert_user_ok:
  "db_ok d \<Longrightarrow> insert_user d uid e un dn av now = Inr d' \<Longrightarrow> db_ok d'"
  unfolding db_ok_def
  by (auto simp: insert_user_def emails_append emails_single subset_iff
      split: if_splits option.splits)

lemma insert_account_ok:
  "db_ok d \<Longrightarrow> insert_account d aid uid p pid tok now = Inr d' \<Longrightarrow> db_ok d'"
  unfolding db_ok_def
  by (auto simp: insert_account_def acct_key_def subset_iff split: if_splits)

lemma upsertUser_ok:
  assumes "db_ok d"
  shows "db_ok (snd (upsertUser d p pid prof tok u1 u2 now))"
proof (cases "select_account d p pid")
  case (Some uid)
  then show ?thesis
    using assms
    by (auto simp: upsertUser_def Let_def update_access_token_ok split: sum.splits
        intro: update_user_profile_ok [OF update_access_token_ok])
next
  case None
  then show ?thesis
    using assms
    by (auto simp: upsertUser_def Let_def split: sum.splits
        intro: insert_user_ok insert_account_ok)
qed

lemma find_append_list:
  "find P (xs @ ys) = (case find P xs of Some x \<Rightarrow> Some x | None \<Rightarrow> find P ys)"
  by (induction xs) simp_all

lemma find_map_same:
  "(\<And>x. P (f x) = P x) \<Longrightarrow> find P (map f xs) = map_option f (find P xs)"
  by (induction xs) simp_all

lemma select_account_insert_user:
  "insert_user d uid e un dn av now = Inr d' \<Longrightarrow> select_account d' q qid = select_account d q qid"
  by (auto simp: insert_user_def select_account_def split: if_splits)

lemma select_account_update_user_profile:
  "update_user_profile d e dn av now uid = Inr d' \<Longrightarrow>
   select_account d' q qid = select_account d q qid"
  by (auto simp: update_user_profile_def select_account_def Let_def split: if_splits)

lemma select_account_insert_account:
  "insert_account d aid uid p pid tok now = Inr d' \<Longrightarrow>
   select_account d' q qid =
     (case select_account d q qid of
        Some x \<Rightarrow> Some x
      | None \<Rightarrow> if p = q \<and> pid = qid then Some uid else None)"
  by (auto simp: insert_account_def select_account_def find_append_list
      split: if_splits option.splits)

lemma upsertUser_stable:
  assumes "select_account d q qid = Some uid"
  shows "select_account (snd (upsertUser d p pid prof tok u1 u2 now)) q qid = Some uid"
proof (cases "select_account d p pid")
  case (Some x)
  then show ?thesis
    using assms
    by (auto simp: upsertUser_def Let_def select_account_update_access_token
        select_account_update_user_profile split: sum.splits)
next
  case None
  then show ?thesis
    using assms
    by (auto simp: upsertUser_def Let_def select_account_insert_user
        select_account_insert_account split: sum.splits)
qed

lemma upsertUser_returns:
  assumes "upsertUser d p pid prof tok u1 u2 now = (Inr uid, d')"
  shows "select_account d' p pid = Some uid"
proof (cases "select_account d p pid")
  case (Some x)
  then show ?thesis
    using assms
    by (auto simp: upsertUser_def Let_def select_account_update_access_token
        select_account_update_user_profile split: sum.splits)
next
  case None
  then show ?thesis
    using assms
    by (auto simp: upsertUser_def Let_def select_account_insert_user
        select_account_insert_account split: sum.splits)
qed

lemma upsert_run_ok: "db_ok d \<Longrightarrow> db_ok (upsert_run d cs)"
  unfolding upsert_run_def
  by (induction cs arbitrary: d) (simp_all add: upsert_step_def upsertUser_ok)

lemma upsert_run_stable:
  "select_account d q qid = Some uid \<Longrightarrow> select_account (upsert_run d cs) q qid = Some uid"
  unfolding upsert_run_def
  by (induction cs arbitrary: d) (simp_all add: upsert_step_def upsertUser_stable)

lemma filter_key_le1:
  "distinct (map f xs) \<Longrightarrow> length (filter (\<lambda>x. f x = k) xs) \<le> 1"
proof (induction xs)
  case Nil
  then show ?case by simp
next
  case (Cons x xs)
  have "filter (\<lambda>x. f x = k) xs = []" if "f x = k"
  proof -
    have "\<forall>y \<in> set xs. f y \<noteq> k"
      using Cons.prems that by (metis distinct.simps(2) image_eqI list.simps(9) set_map)
    then show ?thesis by (simp add: filter_empty_conv)
  qed
  with Cons show ?case by auto
qed

lemma filter_key_eq1:
  "distinct (map f xs) \<Longrightarrow> k \<in> set (map f xs) \<Longrightarrow> length (filter (\<lambda>x. f x = k) xs) = 1"
proof -
  assume d: "distinct (map f xs)" and k: "k \<in> set (map f xs)"
  from k have "filter (\<lambda>x. f x = k) xs \<noteq> []"
    by (auto simp: filter_empty_conv)
  then have "0 < length (filter (\<lambda>x. f x = k) xs)" by simp
  with filter_key_le1 [OF d, of k] show ?thesis by linarith
qed

lemma find_as_filter:
  "find P xs = (case filter P xs of [] \<Rightarrow> None | x # _ \<Rightarrow> Some x)"
  by (induction xs) simp_all

lemma select_account_Some:
  "select_account d p pid = Some uid \<Longrightarrow>
   \<exists>a \<in> set (oauth_accounts d). acct_key a = (p, pid) \<and> a_user_id a = uid"
  by (auto simp: select_account_def acct_key_def find_Some_iff)

lemma account_filter_single:
  assumes "db_ok d" and "select_account d p pid = Some uid"
  shows "\<exists>a. filter (\<lambda>a. a_provider a = p \<and> a_provider_user_id a = pid) (oauth_accounts d) = [a]
            \<and> a_user_id a = uid"
proof -
  let ?P = "\<lambda>a. a_provider a = p \<and> a_provider_user_id a = pid"
  have eq: "?P = (\<lambda>a. acct_key a = (p, pid))"
    by (auto simp: acct_key_def)
  obtain a where a: "a \<in> set (oauth_accounts d)" "acct_key a = (p, pid)"
    using select_account_Some [OF assms(2)] by blast
  then have "(p, pid) \<in> set (map acct_key (oauth_accounts d))" by force
  with assms(1) have "length (filter ?P (oauth_accounts d)) = 1"
    unfolding eq db_ok_def by (simp add: filter_key_eq1)
  then obtain b where b: "filter ?P (oauth_accounts d) = [b]"
    by (cases "filter ?P (oauth_accounts d)") auto
  have "find ?P (oauth_accounts d) = Some b"
    using b by (simp add: find_as_filter)
  then show ?thesis using b assms(2) by (auto simp: select_account_def)
qed

lemma emails_Cons:
  "emails (u # rows) = (case u_email u of None \<Rightarrow> emails rows | Some e \<Rightarrow> e # emails rows)"
  by (simp add: emails_def List.map_filter_def split: option.splits)

lemma emails_Nil: "emails [] = []"
  by (simp add: emails_def List.map_filter_def)

lemma emails_update_same:
  "(\<And>u. u_email (h u) = u_email u) \<Longrightarrow>
   emails (map (\<lambda>u. if u_id u = uid then h u else u) rows) = emails rows"
  by (induction rows) (auto simp: emails_Cons emails_Nil split: option.splits)

lemma emails_update_new:
  assumes "\<And>u. u_email (h u) = Some e"
    and "distinct (map u_id rows)"
    and "distinct (emails rows)"
    and "list_all (\<lambda>u. u_email u = Some e \<longrightarrow> u_id u = uid) rows"
  shows "distinct (emails (map (\<lambda>u. if u_id u = uid then h u else u) rows))
       \<and> set (emails (map (\<lambda>u. if u_id u = uid then h u else u) rows))
           \<subseteq> insert e (set (emails rows))"
  using assms(2-4)
proof (induction rows)
  case Nil
  then show ?case by (simp add: emails_Nil)
next
  case (Cons u rows)
  let ?g = "\<lambda>u. if u_id u = uid then h u else u"
  have IH: "distinct (emails (map ?g rows))"
    "set (emails (map ?g rows)) \<subseteq> insert e (set (emails rows))"
    using Cons by (auto simp: emails_Cons split: option.splits)
  show ?case
  proof (cases "u_id u = uid")
    case True
    then have "\<forall>v \<in> set rows. u_id v \<noteq> uid"
      using Cons.prems(1) by (metis distinct.simps(2) image_eqI list.simps(9) set_map)
    then have same: "map ?g rows = rows"
      by (simp add: map_idI)
    have "e \<notin> set (emails rows)"
    proof
      assume "e \<in> set (emails rows)"
      then obtain v where "v \<in> set rows" "u_email v = Some e"
        by (auto simp: emails_def List.map_filter_def)
      then have "u_id v = uid"
        using Cons.prems(3) by (auto simp: list_all_iff)
      with \<open>\<forall>v \<in> set rows. u_id v \<noteq> uid\<close> \<open>v \<in> set rows\<close> show False by blast
    qed
    then show ?thesis
      using True same assms(1) Cons.prems(2)
      by (auto simp: emails_Cons split: option.splits)
  next
    case False
    show ?thesis
    proof (cases "u_email u")
      case None
      then show ?thesis using False IH by (auto simp: emails_Cons)
    next
      case (Some x)
      then have "x \<noteq> e"
        using False Cons.prems(3) by auto
      moreover have "x \<notin> set (emails rows)"
        using Some Cons.prems(2) by (simp add: emails_Cons)
      ultimately have "x \<notin> set (emails (map ?g rows))"
        using IH(2) by auto
      then show ?thesis using False Some IH by (auto simp: emails_Cons)
    qed
  qed
qed

lemma counts_one:
  assumes "db_ok d" and "select_account d p pid = Some uid"
  shows "account_count d p pid = 1 \<and> user_count d p pid = 1
       \<and> (\<exists>u. user_by_id d uid = Some u \<and> u_id u = uid)"
proof -
  obtain a where a: "filter (\<lambda>a. a_provider a = p \<and> a_provider_user_id a = pid)
      (oauth_accounts d) = [a]" "a_user_id a = uid"
    using account_filter_single [OF assms] by blast
  have "a \<in> set (filter (\<lambda>a. a_provider a = p \<and> a_provider_user_id a = pid)
      (oauth_accounts d))"
    using a(1) by simp
  then have "a \<in> set (oauth_accounts d)"
    by simp
  then have uid: "uid \<in> set (map u_id (users d))"
    using assms(1) a(2) unfolding db_ok_def by auto
  have "length (filter (\<lambda>u. u_id u = uid) (users d)) = 1"
    using assms(1) uid unfolding db_ok_def by (simp add: filter_key_eq1)
  moreover have "\<exists>u. find (\<lambda>u. u_id u = uid) (users d) = Some u \<and> u_id u = uid"
    using uid by (cases "find (\<lambda>u. u_id u = uid) (users d)") (auto simp: find_None_iff find_Some_iff)
  ultimately show ?thesis
    using a by (simp add: account_count_def user_count_def user_by_id_def)
qed

lemma counts_le_one:
  assumes "db_ok d"
  shows "account_count d p pid \<le> 1 \<and> user_count d p pid \<le> 1"
proof (cases "select_account d p pid")
  case None
  then have "filter (\<lambda>a. a_provider a = p \<and> a_provider_user_id a = pid) (oauth_accounts d) = []"
    by (auto simp: select_account_def find_None_iff filter_empty_conv)
  then show ?thesis by (simp add: account_count_def user_count_def)
next
  case (Some uid)
  then show ?thesis using counts_one [OF assms Some] by simp
qed

lemma upsertUser_existing_unfold:
  assumes sel: "select_account d p pid = Some uid"
  shows "upsertUser d p pid prof tok u1 u2 now =
     (let rows = map (\<lambda>u. if u_id u = uid then set_profile (email prof) (displayName prof) (avatarUrl prof) now u else u) (users d);
          d1 = update_access_token d tok p pid
      in if distinct (emails rows) then (Inr uid, d1\<lparr>users := rows\<rparr>)
         else (Inl ConstraintError, d1))"
  using sel
  by (simp add: upsertUser_def update_user_profile_def Let_def update_access_token_keeps)

lemma user_by_id_merged:
  "user_by_id (d\<lparr>users := map (\<lambda>u. if u_id u = uid then set_profile (email prof) (displayName prof) (avatarUrl prof) now u else u) (users d0)\<rparr>) uid
     = map_option (set_profile (email prof) (displayName prof) (avatarUrl prof) now) (user_by_id (d\<lparr>users := users d0\<rparr>) uid)"
proof -
  have "find (\<lambda>u. u_id u = uid) (map (\<lambda>u. if u_id u = uid then set_profile (email prof) (displayName prof) (avatarUrl prof) now u else u) rows)
      = map_option (set_profile (email prof) (displayName prof) (avatarUrl prof) now) (find (\<lambda>u. u_id u = uid) rows)" for rows
    by (induction rows) (simp_all add: set_profile_def)
  then show ?thesis by (simp add: user_by_id_def)
qed

lemma upsertUser_existing:
  assumes ok: "db_ok d"
    and sel: "select_account d p pid = Some uid"
    and run: "upsertUser d p pid prof tok u1 u2 now = (r, d')"
  shows "length (users d') = length (users d) \<and>
         length (oauth_accounts d') = length (oauth_accounts d) \<and>
         (r = Inr uid \<or> r = Inl ConstraintError) \<and>
         (\<exists>old. user_by_id d uid = Some old \<and>
            user_by_id d' uid = Some (if r = Inr uid then set_profile (email prof) (displayName prof) (avatarUrl prof) now old else old)) \<and>
         (email prof = None \<longrightarrow> r = Inr uid) \<and>
         (\<forall>e. email prof = Some e \<and>
               list_all (\<lambda>u. u_email u = Some e \<longrightarrow> u_id u = uid) (users d) \<longrightarrow> r = Inr uid)"
proof -
  let ?rows = "map (\<lambda>u. if u_id u = uid then set_profile (email prof) (displayName prof) (avatarUrl prof) now u else u) (users d)"
  let ?d1 = "update_access_token d tok p pid"
  obtain old where old: "user_by_id d uid = Some old"
    using counts_one [OF ok sel] by blast
  have d1: "users ?d1 = users d" "length (oauth_accounts ?d1) = length (oauth_accounts d)"
    by (simp_all add: update_access_token_def)
  have byid1: "user_by_id ?d1 uid = Some old"
    using old by (simp add: user_by_id_def d1)
  have none: "distinct (emails ?rows)" if "email prof = None"
  proof -
    have "emails ?rows = emails (users d)"
      using that by (intro emails_update_same) (simp add: set_profile_def coalesce_def)
    then show ?thesis using ok by (simp add: db_ok_def)
  qed
  have some: "distinct (emails ?rows)"
    if "email prof = Some e" "list_all (\<lambda>u. u_email u = Some e \<longrightarrow> u_id u = uid) (users d)" for e
    using emails_update_new [of "set_profile (email prof) (displayName prof) (avatarUrl prof) now" e "users d" uid] that ok
    by (simp add: set_profile_def coalesce_def db_ok_def)
  show ?thesis
  proof (cases "distinct (emails ?rows)")
    case True
    then have r: "r = Inr uid" "d' = ?d1\<lparr>users := ?rows\<rparr>"
      using run upsertUser_existing_unfold [OF sel, of prof tok u1 u2 now]
      by (simp_all add: Let_def)
    have "user_by_id d' uid = Some (set_profile (email prof) (displayName prof) (avatarUrl prof) now old)"
      using user_by_id_merged [where d = ?d1 and uid = uid and prof = prof and now = now and ?d0.0 = d] old
      by (simp add: r user_by_id_def)
    then show ?thesis
      using r old d1 by simp
  next
    case False
    then have r: "r = Inl ConstraintError" "d' = ?d1"
      using run upsertUser_existing_unfold [OF sel, of prof tok u1 u2 now]
      by (simp_all add: Let_def)
    show ?thesis
      using r old byid1 d1 False none some by auto
  qed
qed

lemma demo_db_eq:
  "demo_db =
     \<lparr>users =
        [\<lparr>u_id = js ''u1'', u_email = Some (js ''a@x''), u_username = None,
          u_display_name = Some (js ''Ann''), u_avatar_url = None,
          u_created_at = js ''d1'', u_updated_at = js ''d1''\<rparr>,
         \<lparr>u_id = js ''u2'', u_email = None, u_username = Some (js ''bob''),
          u_display_name = Some (js ''Bob''), u_avatar_url = None,
          u_created_at = js ''d2'', u_updated_at = js ''d2''\<rparr>],
      oauth_accounts =
        [\<lparr>a_id = js ''k1'', a_user_id = js ''u1'', a_provider = Google,
          a_provider_user_id = js ''g1'', a_access_token = Some (js ''t1''),
          a_refresh_token = None, a_created_at = js ''d1''\<rparr>,
         \<lparr>a_id = js ''k2'', a_user_id = js ''u2'', a_provider = Github,
          a_provider_user_id = js ''7'', a_access_token = Some (js ''t2''),
          a_refresh_token = None, a_created_at = js ''d2''\<rparr>]\<rparr>"
  by (simp add: demo_db_def demo_calls_def empty_db_def upsert_run_def upsert_step_def
      upsertUser_def select_account_def insert_user_def insert_account_def strip_dashes_def
      emails_def List.map_filter_def acct_key_def js_def Let_def)

text \<open>
  C5, as stated, fails where the e-mail of the later login belongs to another user: from
  the empty database, a Google login with e-mail \<open>a@x\<close> and a GitHub login without
  e-mail create two users; the GitHub identity logging in again with e-mail \<open>a@x\<close>
  violates \<open>UNIQUE\<close> on \<open>users.email\<close>, \<open>upsertUser\<close> raises, and the stored e-mail of
  the GitHub user is still \<open>NULL\<close> (the access token is already replaced).
\<close>

theorem upsertUser_email_counterexample:
  "db_ok demo_db
   \<and> select_account demo_db Github (js ''7'') = Some (js ''u2'')
   \<and> upsertUser demo_db Github (js ''7'')
        \<lparr>email = Some (js ''a@x''), username = Some (js ''bob''),
         displayName = Some (js ''Bob''), avatarUrl = None\<rparr>
        (js ''t3'') (js ''u-3'') (js ''k-3'') (js ''d3'')
      = (Inl ConstraintError, update_access_token demo_db (js ''t3'') Github (js ''7''))
   \<and> map_option u_email
        (user_by_id (update_access_token demo_db (js ''t3'') Github (js ''7'')) (js ''u2''))
      = Some None"
  unfolding demo_db_eq
  by (simp add: db_ok_def upsertUser_def select_account_def update_access_token_def
      update_user_profile_def set_profile_def coalesce_def user_by_id_def
      emails_def List.map_filter_def acct_key_def js_def Let_def)

text \<open>
  C5, amended. In a database that satisfies its schema, once \<open>upsertUser\<close> has returned
  user id \<open>uid\<close> for \<open>(provider, providerUserId)\<close>, then after any further logins
  whatsoever a repeated \<open>upsertUser\<close> for the same pair leaves exactly one
  \<open>oauth_accounts\<close> row and one \<open>users\<close> row for the pair, adds no row to either table,
  and either returns the same \<open>uid\<close> or raises the constraint error. When it returns,
  e-mail, display name and avatar URL of the stored user are the incoming value where
  that is non-null and the stored value where it is null, and the username is
  untouched; when it raises, the user row is unchanged. It returns whenever the incoming
  e-mail is null, and whenever no other user row holds the incoming e-mail.
\<close>

theorem upsertUser_repeated:
  assumes ok: "db_ok d0"
    and first: "upsertUser d0 p pid prof0 tok0 ua ub t0 = (Inr uid, d1)"
    and later: "d2 = upsert_run d1 calls"
    and again: "upsertUser d2 p pid prof tok u1 u2 now = (r, d3)"
  shows "account_count d3 p pid = 1 \<and> user_count d3 p pid = 1
       \<and> length (users d3) = length (users d2)
       \<and> length (oauth_accounts d3) = length (oauth_accounts d2)
       \<and> (r = Inr uid \<or> r = Inl ConstraintError)
       \<and> (\<exists>old new. user_by_id d2 uid = Some old \<and> user_by_id d3 uid = Some new \<and>
            (r = Inr uid \<longrightarrow>
               u_email new = coalesce (email prof) (u_email old) \<and>
               u_display_name new = coalesce (displayName prof) (u_display_name old) \<and>
               u_avatar_url new = coalesce (avatarUrl prof) (u_avatar_url old) \<and>
               u_username new = u_username old \<and> u_id new = u_id old) \<and>
            (r \<noteq> Inr uid \<longrightarrow> new = old))
       \<and> (email prof = None \<longrightarrow> r = Inr uid)
       \<and> (\<forall>e. email prof = Some e \<and>
               list_all (\<lambda>u. u_email u = Some e \<longrightarrow> u_id u = uid) (users d2) \<longrightarrow> r = Inr uid)"
proof -
  have ok1: "db_ok d1"
    using upsertUser_ok [OF ok, of p pid prof0 tok0 ua ub t0] first by simp
  have ok2: "db_ok d2"
    using ok1 later by (simp add: upsert_run_ok)
  have sel2: "select_account d2 p pid = Some uid"
    using upsertUser_returns [OF first] later by (simp add: upsert_run_stable)
  have ok3: "db_ok d3"
    using upsertUser_ok [OF ok2, of p pid prof tok u1 u2 now] again by simp
  have sel3: "select_account d3 p pid = Some uid"
    using upsertUser_stable [OF sel2, of p pid prof tok u1 u2 now] again by simp
  note ex = upsertUser_existing [OF ok2 sel2 again]
  from ex obtain old where old: "user_by_id d2 uid = Some old"
    "user_by_id d3 uid =
       Some (if r = Inr uid
             then set_profile (email prof) (displayName prof) (avatarUrl prof) now old else old)"
    by blast
  have "\<exists>old new. user_by_id d2 uid = Some old \<and> user_by_id d3 uid = Some new \<and>
            (r = Inr uid \<longrightarrow>
               u_email new = coalesce (email prof) (u_email old) \<and>
               u_display_name new = coalesce (displayName prof) (u_display_name old) \<and>
               u_avatar_url new = coalesce (avatarUrl prof) (u_avatar_url old) \<and>
               u_username new = u_username old \<and> u_id new = u_id old) \<and>
            (r \<noteq> Inr uid \<longrightarrow> new = old)"
    using old by (auto simp: set_profile_def)
  then show ?thesis
    using counts_one [OF ok3 sel3] ex by blast
qed

text \<open>
  The theorem at a concrete history: a first Google login without e-mail, the two logins
  of the example data (the first of them the same Google identity, now with e-mail
  \<open>a@x\<close>), and the Google identity once more with e-mail \<open>b@x\<close>.
\<close>

theorem upsertUser_repeated_witness:
  "db_ok empty_db
   \<and> upsertUser empty_db Google (js ''g1'')
        \<lparr>email = None, username = None, displayName = Some (js ''Ann''), avatarUrl = None\<rparr>
        (js ''t0'') (js ''u-0'') (js ''k-0'') (js ''d0'')
      = (Inr (js ''u0''),
         snd (upsertUser empty_db Google (js ''g1'')
           \<lparr>email = None, username = None, displayName = Some (js ''Ann''), avatarUrl = None\<rparr>
           (js ''t0'') (js ''u-0'') (js ''k-0'') (js ''d0'')))
   \<and> fst (upsertUser (upsert_run (snd (upsertUser empty_db Google (js ''g1'')
           \<lparr>email = None, username = None, displayName = Some (js ''Ann''), avatarUrl = None\<rparr>
           (js ''t0'') (js ''u-0'') (js ''k-0'') (js ''d0''))) demo_calls)
         Google (js ''g1'') demo_profile (js ''t9'') (js ''u-9'') (js ''k-9'') (js ''d9''))
      = Inr (js ''u0'')
   \<and> account_count (snd (upsertUser (upsert_run (snd (upsertUser empty_db Google (js ''g1'')
           \<lparr>email = None, username = None, displayName = Some (js ''Ann''), avatarUrl = None\<rparr>
           (js ''t0'') (js ''u-0'') (js ''k-0'') (js ''d0''))) demo_calls)
         Google (js ''g1'') demo_profile (js ''t9'') (js ''u-9'') (js ''k-9'') (js ''d9'')))
       Google (js ''g1'') = 1
   \<and> user_count (snd (upsertUser (upsert_run (snd (upsertUser empty_db Google (js ''g1'')
           \<lparr>email = None, username = None, displayName = Some (js ''Ann''), avatarUrl = None\<rparr>
           (js ''t0'') (js ''u-0'') (js ''k-0'') (js ''d0''))) demo_calls)
         Google (js ''g1'') demo_profile (js ''t9'') (js ''u-9'') (js ''k-9'') (js ''d9'')))
       Google (js ''g1'') = 1
   \<and> map_option u_email (user_by_id (snd (upsertUser (upsert_run (snd (upsertUser empty_db Google (js ''g1'')
           \<lparr>email = None, username = None, displayName = Some (js ''Ann''), avatarUrl = None\<rparr>
           (js ''t0'') (js ''u-0'') (js ''k-0'') (js ''d0''))) demo_calls)
         Google (js ''g1'') demo_profile (js ''t9'') (js ''u-9'') (js ''k-9'') (js ''d9'')))
       (js ''u0'')) = Some (Some (js ''b@x''))"
proof -
  let ?p0 = "\<lparr>email = None, username = None, displayName = Some (js ''Ann''), avatarUrl = None\<rparr>"
  let ?d1 = "snd (upsertUser empty_db Google (js ''g1'') ?p0 (js ''t0'') (js ''u-0'') (js ''k-0'') (js ''d0''))"
  let ?d2 = "upsert_run ?d1 demo_calls"
  let ?run = "upsertUser ?d2 Google (js ''g1'') demo_profile (js ''t9'') (js ''u-9'') (js ''k-9'') (js ''d9'')"
  have ok: "db_ok empty_db"
    by (simp add: db_ok_def empty_db_def emails_def List.map_filter_def)
  have first: "upsertUser empty_db Google (js ''g1'') ?p0 (js ''t0'') (js ''u-0'') (js ''k-0'') (js ''d0'')
      = (Inr (js ''u0''), ?d1)"
    by (simp add: empty_db_def upsertUser_def select_account_def insert_user_def
        insert_account_def strip_dashes_def emails_def List.map_filter_def acct_key_def js_def Let_def)
  have again: "?run = (fst ?run, snd ?run)"
    by simp
  have users2: "map (\<lambda>u. (u_id u, u_email u)) (users ?d2)
      = [(js ''u0'', Some (js ''a@x'')), (js ''u2'', None)]"
    by (simp add: demo_calls_def empty_db_def upsert_run_def upsert_step_def
      upsertUser_def select_account_def insert_user_def insert_account_def strip_dashes_def
      update_access_token_def update_user_profile_def set_profile_def coalesce_def
      emails_def List.map_filter_def acct_key_def js_def Let_def)
  have free: "list_all (\<lambda>u. u_email u = Some (js ''b@x'') \<longrightarrow> u_id u = js ''u0'') (users ?d2)"
  proof -
    have "list_all (\<lambda>q. snd q = Some (js ''b@x'') \<longrightarrow> fst q = js ''u0'')
        (map (\<lambda>u. (u_id u, u_email u)) (users ?d2))"
      unfolding users2 by simp
    then show ?thesis by (simp add: list_all_iff)
  qed
  note inst = upsertUser_repeated [OF ok first refl again]
  from inst free have r: "fst ?run = Inr (js ''u0'')"
    by (simp add: demo_profile_def)
  from inst r have "map_option u_email (user_by_id (snd ?run) (js ''u0'')) = Some (Some (js ''b@x''))"
    by (auto simp: demo_profile_def coalesce_def)
  with inst r ok first show ?thesis
    by simp
qed

section \<open>Properties of base64\<close>

lemma byte_lt: "unat (a :: byte) < 256"
  using unsigned_less [of a, where 'a = nat] by simp

lemma bytes3:
  fixes x y z :: nat
  assumes "x < 256" "y < 256" "z < 256"
  shows "(x * 65536 + y * 256 + z) div 65536 = x"
    and "(x * 65536 + y * 256 + z) div 256 mod 256 = y"
    and "(x * 65536 + y * 256 + z) mod 256 = z"
    and "x * 65536 + y * 256 + z < 64 * 262144"
proof -
  have yz: "y * 256 + z < 65536"
  proof -
    have "y * 256 \<le> 255 * 256" using assms(2) by simp
    then show ?thesis using assms(3) by simp
  qed
  have n: "x * 65536 + y * 256 + z = (y * 256 + z) + x * 65536"
    by simp
  show "(x * 65536 + y * 256 + z) div 65536 = x"
    unfolding n using yz by (simp only: div_mult_self1 div_less)
  have m: "x * 65536 + y * 256 + z = z + (x * 256 + y) * 256"
    by simp
  have "(x * 65536 + y * 256 + z) div 256 = x * 256 + y"
    unfolding m using assms(3) by (simp only: div_mult_self1 div_less)
  moreover have "(y + x * 256) mod 256 = y"
    using assms(2) by (simp only: mod_mult_self1 mod_less)
  ultimately show "(x * 65536 + y * 256 + z) div 256 mod 256 = y"
    by (simp add: add.commute)
  show "(x * 65536 + y * 256 + z) mod 256 = z"
    unfolding m using assms(3) by (simp only: mod_mult_self1 mod_less)
  have "x * 65536 \<le> 255 * 65536" using assms(1) by simp
  then show "x * 65536 + y * 256 + z < 64 * 262144"
    using yz by simp
qed

lemma bytes2:
  fixes x y :: nat
  assumes "x < 256" "y < 256"
  shows "(x * 256 + y) div 256 = x"
    and "(x * 256 + y) mod 256 = y"
    and "(x * 256 + y) * 4 < 64 * 4096"
proof -
  have n: "x * 256 + y = y + x * 256" by simp
  show "(x * 256 + y) div 256 = x"
    unfolding n using assms(2) by (simp only: div_mult_self1 div_less)
  show "(x * 256 + y) mod 256 = y"
    unfolding n using assms(2) by (simp only: mod_mult_self1 mod_less)
  have "x * 256 \<le> 255 * 256" using assms(1) by simp
  then show "(x * 256 + y) * 4 < 64 * 4096"
    using assms(2) by simp
qed

lemma radix64:
  fixes n :: nat
  shows "n div 262144 * 262144 + n div 4096 mod 64 * 4096 + n div 64 mod 64 * 64 + n mod 64 = n"
    and "n div 4096 * 4096 + n div 64 mod 64 * 64 + n mod 64 = n"
proof -
  define q1 q2 q3 where "q1 = n div 64" and "q2 = q1 div 64" and "q3 = q2 div 64"
  have d: "n div 4096 = q2" "n div 262144 = q3"
    by (simp_all add: q1_def q2_def q3_def div_mult2_eq [symmetric])
  have e: "n = q1 * 64 + n mod 64" "q1 = q2 * 64 + q1 mod 64" "q2 = q3 * 64 + q2 mod 64"
    by (simp_all add: q1_def q2_def q3_def)
  define r0 r1 r2 where "r0 = n mod 64" and "r1 = q1 mod 64" and "r2 = q2 mod 64"
  have "q3 * 262144 + r2 * 4096 + r1 * 64 + r0 = n"
    using e unfolding r0_def [symmetric] r1_def [symmetric] r2_def [symmetric] by linarith
  moreover have "q2 * 4096 + r1 * 64 + r0 = n"
    using e unfolding r0_def [symmetric] r1_def [symmetric] r2_def [symmetric] by linarith
  ultimately show "n div 262144 * 262144 + n div 4096 mod 64 * 4096 + n div 64 mod 64 * 64 + n mod 64 = n"
    and "n div 4096 * 4096 + n div 64 mod 64 * 64 + n mod 64 = n"
    unfolding d q1_def [symmetric] r0_def r1_def r2_def by simp_all
qed

lemma unat16: "x < 65536 \<Longrightarrow> unat (of_nat x :: 16 word) = x"
  by (rule of_nat_inverse [OF refl]) simp

lemma b64_code_lt: "b64_code n < 123"
  by (auto simp: b64_code_def)

lemma unat_b64_char: "unat (b64_char n) = b64_code n"
proof -
  have "b64_char n = of_nat (b64_code n)"
    by (simp add: b64_char_def b64_code_def)
  moreover have "b64_code n < 65536"
    using b64_code_lt [of n] by simp
  ultimately show ?thesis
    by (simp only: unat16)
qed

lemma b64_code_val:
  assumes "n < 64"
  shows "(let x = b64_code n
          in if 65 \<le> x \<and> x \<le> 90 then Some (x - 65)
             else if 97 \<le> x \<and> x \<le> 122 then Some (x - 71)
             else if 48 \<le> x \<and> x \<le> 57 then Some (x + 4)
             else if x = 43 then Some 62
             else if x = 47 then Some 63
             else None) = Some n"
proof -
  consider "n < 26" | "26 \<le> n" "n < 52" | "52 \<le> n" "n < 62" | "n = 62" | "n = 63"
    using assms by linarith
  then show ?thesis
    by cases (auto simp: b64_code_def Let_def)
qed

lemma b64_val_char: "n < 64 \<Longrightarrow> b64_val (b64_char n) = Some n"
  unfolding b64_val_def unat_b64_char by (rule b64_code_val)

lemma b64_code_not:
  "b64_code n \<noteq> 61" "b64_code n \<noteq> 46" "b64_code n \<noteq> 45" "b64_code n \<noteq> 95"
  "b64_code n \<noteq> 9" "b64_code n \<noteq> 10" "b64_code n \<noteq> 12" "b64_code n \<noteq> 13" "b64_code n \<noteq> 32"
  by (auto simp: b64_code_def)

lemma b64_code_eq: "b64_code n = 43 \<longleftrightarrow> 62 = n" "n < 64 \<Longrightarrow> b64_code n = 47 \<longleftrightarrow> 63 = n"
  by (auto simp: b64_code_def)

lemma b64_char_eq_iff: "b64_char n = of_nat k \<Longrightarrow> k < 65536 \<Longrightarrow> b64_code n = k"
  using unat_b64_char [of n] by (simp add: unat16)

lemma b64_char_not:
  "b64_char n \<noteq> 61" "b64_char n \<noteq> 46" "b64_char n \<noteq> 45" "b64_char n \<noteq> 95"
  "\<not> ascii_whitespace (b64_char n)"
proof -
  have *: "b64_char n \<noteq> of_nat k" if "b64_code n \<noteq> k" "k < 65536" for k
    using b64_char_eq_iff [of n k] that by blast
  show "b64_char n \<noteq> 61" "b64_char n \<noteq> 46" "b64_char n \<noteq> 45" "b64_char n \<noteq> 95"
    using * [of 61] * [of 46] * [of 45] * [of 95] b64_code_not [of n] by simp_all
  show "\<not> ascii_whitespace (b64_char n)"
    using * [of 9] * [of 10] * [of 12] * [of 13] * [of 32] b64_code_not [of n]
    by (simp add: ascii_whitespace_def)
qed

lemma b64_char_plus_slash:
  "b64_char n = 43 \<longleftrightarrow> n = 62" "n < 64 \<Longrightarrow> b64_char n = 47 \<longleftrightarrow> n = 63"
proof -
  have a: "b64_char 62 = 43" "b64_char 63 = 47"
    by (simp_all add: b64_char_def)
  show "b64_char n = 43 \<longleftrightarrow> n = 62"
    using b64_char_eq_iff [of n 43] b64_code_eq(1) [of n] a by auto
  show "b64_char n = 47 \<longleftrightarrow> n = 63" if "n < 64"
    using b64_char_eq_iff [of n 47] b64_code_eq(2) [OF that] a by auto
qed

lemma mod64_lt: "(m :: nat) mod 64 < 64"
  by simp

lemma sextets_lt: "list_all (\<lambda>n. n < 64) (sextets bs)"
proof (induction bs rule: sextets.induct)
  case (1 a b c rest)
  have "(unat a * 65536 + unat b * 256 + unat c) div 262144 < 64"
    using bytes3(4) [OF byte_lt [of a] byte_lt [of b] byte_lt [of c]]
    by (rule less_mult_imp_div_less)
  then show ?case
    using 1 by (simp only: sextets.simps Let_def list_all_append list.pred_inject mod64_lt simp_thms)
next
  case (2 a b)
  have "(unat a * 256 + unat b) * 4 div 4096 < 64"
    using bytes2(3) [OF byte_lt [of a] byte_lt [of b]]
    by (rule less_mult_imp_div_less)
  then show ?case
    by (simp only: sextets.simps Let_def list.pred_inject mod64_lt simp_thms)
next
  case (3 a)
  have "unat a * 16 < 64 * 64"
    using byte_lt [of a] by simp
  then have "unat a * 16 div 64 < 64"
    by (rule less_mult_imp_div_less)
  then show ?case
    by (simp only: sextets.simps Let_def list.pred_inject mod64_lt simp_thms)
next
  case 4
  then show ?case by simp
qed

lemma all_vals_chars: "list_all (\<lambda>n. n < 64) ns \<Longrightarrow> all_vals (map b64_char ns) = Some ns"
  by (induction ns) (simp_all add: b64_val_char)

lemma unsextets_sextets: "unsextets (sextets bs) = bs"
proof (induction bs rule: sextets.induct)
  case (1 a b c rest)
  define n where "n = unat a * 65536 + unat b * 256 + unat c"
  define m where "m = n div 262144 * 262144 + n div 4096 mod 64 * 4096 + n div 64 mod 64 * 64 + n mod 64"
  have bytes: "n div 65536 = unat a" "n div 256 mod 256 = unat b" "n mod 256 = unat c"
    unfolding n_def by (rule bytes3 [OF byte_lt byte_lt byte_lt])+
  have mn: "m = n"
    unfolding m_def by (rule radix64)
  have "sextets (a # b # c # rest)
      = [n div 262144, n div 4096 mod 64, n div 64 mod 64, n mod 64] @ sextets rest"
    by (simp only: sextets.simps Let_def n_def)
  then have "unsextets (sextets (a # b # c # rest))
      = [of_nat (m div 65536), of_nat (m div 256 mod 256), of_nat (m mod 256)]
        @ unsextets (sextets rest)"
    by (simp only: append_Cons append_Nil unsextets.simps Let_def m_def)
  also have "\<dots> = [of_nat (unat a), of_nat (unat b), of_nat (unat c)] @ rest"
    by (simp only: mn bytes 1)
  also have "\<dots> = a # b # c # rest"
    by simp
  finally show ?case .
next
  case (2 a b)
  define n where "n = (unat a * 256 + unat b) * 4"
  define m where "m = n div 4096 * 4096 + n div 64 mod 64 * 64 + n mod 64"
  have mn: "m = n"
    unfolding m_def by (rule radix64)
  have n4: "n div 4 = unat a * 256 + unat b"
    unfolding n_def by simp
  have bytes: "(unat a * 256 + unat b) div 256 = unat a"
    "(unat a * 256 + unat b) mod 256 = unat b"
    by (rule bytes2 [OF byte_lt byte_lt])+
  have "sextets [a, b] = [n div 4096, n div 64 mod 64, n mod 64]"
    by (simp only: sextets.simps Let_def n_def)
  then have "unsextets (sextets [a, b]) = [of_nat (m div 4 div 256), of_nat (m div 4 mod 256)]"
    by (simp only: unsextets.simps Let_def m_def)
  also have "\<dots> = [of_nat (unat a), of_nat (unat b)]"
    by (simp only: mn n4 bytes)
  also have "\<dots> = [a, b]"
    by simp
  finally show ?case .
next
  case (3 a)
  define n where "n = unat a * 16"
  have "n div 64 * 64 + n mod 64 = n"
    by simp
  moreover have "n div 16 = unat a"
    unfolding n_def by simp
  moreover have "sextets [a] = [n div 64, n mod 64]"
    by (simp only: sextets.simps Let_def n_def)
  then have "unsextets (sextets [a]) = [of_nat ((n div 64 * 64 + n mod 64) div 16)]"
    by (simp only: unsextets.simps)
  ultimately have "unsextets (sextets [a]) = [of_nat (unat a)]"
    by (simp only:)
  then show ?case by simp
next
  case 4
  then show ?case by simp
qed

lemma replace_char_append: "replace_char x y (a @ b) = replace_char x y a @ replace_char x y b"
  by (simp add: replace_char_def)

lemma remove_char_append: "remove_char x (a @ b) = remove_char x a @ remove_char x b"
  by (simp add: remove_char_def)

lemma b64url_chars:
  assumes "list_all (\<lambda>n. n < 64) ns"
  shows "remove_char 61 (replace_char 47 95 (replace_char 43 45 (map b64_char ns @ replicate k 61)))
       = map b64url_char ns"
proof -
  have "replace_char 47 95 (replace_char 43 45 (map b64_char ns)) = map b64url_char ns"
    using assms
    by (induction ns) (auto simp: replace_char_def b64url_char_def b64_char_plus_slash)
  moreover have "remove_char 61 (map b64url_char ns) = map b64url_char ns"
    by (induction ns) (simp_all add: remove_char_def b64url_char_def b64_char_not)
  moreover have "remove_char 61 (replace_char 47 95 (replace_char 43 45 (replicate k 61))) = []"
    by (induction k) (simp_all add: remove_char_def replace_char_def)
  ultimately show ?thesis
    by (simp only: replace_char_append remove_char_append append_Nil2)
qed

lemma b64url_eq: "b64url bs = map b64url_char (sextets bs)"
  unfolding b64url_def btoa_def by (rule b64url_chars [OF sextets_lt])

lemma b64url_char_back:
  "replace_char 95 47 (replace_char 45 43 (map b64url_char ns)) = map b64_char ns"
proof -
  have a: "b64_char 62 = 43" "b64_char 63 = 47"
    by (simp_all add: b64_char_def)
  show ?thesis
    by (induction ns) (simp_all add: replace_char_def b64url_char_def b64_char_not a)
qed

lemma no_whitespace: "filter (\<lambda>c. \<not> ascii_whitespace c) (map b64_char ns) = map b64_char ns"
  by (induction ns) (simp_all add: b64_char_not)

lemma no_padding: "strip_padding (map b64_char ns) = map b64_char ns"
proof (cases "ns = []")
  case True
  then show ?thesis by (simp add: strip_padding_def)
next
  case False
  then have "last (map b64_char ns) = b64_char (last ns)"
    by (simp add: last_map)
  then show ?thesis
    by (simp add: strip_padding_def b64_char_not)
qed

lemma length_sextets: "length (sextets bs) mod 4 \<noteq> 1"
  by (induction bs rule: sextets.induct) (simp_all add: Let_def)

lemma atob_chars: "atob (map b64_char (sextets bs)) = Inr bs"
  using length_sextets [of bs]
  by (simp add: atob_def no_whitespace no_padding all_vals_chars [OF sextets_lt]
      unsextets_sextets)

lemma b64urlDecode_b64url: "b64urlDecode (b64url bs) = Inr bs"
  by (simp add: b64urlDecode_def b64url_eq b64url_char_back atob_chars)

lemma b64url_no_dot: "46 \<notin> set (b64url bs)"
proof -
  have "b64url_char n \<noteq> 46" for n
    by (simp add: b64url_char_def b64_char_not)
  then show ?thesis
    unfolding b64url_eq by auto
qed

section \<open>Properties of JSON.parse\<close>

text \<open>
  Whatever the parser reads, it consumes at least one character. So the comparisons of
  lengths in \<open>parse_elems\<close> and \<open>parse_members\<close>, which the termination proof needs, hold
  whenever they are reached: they reject no text.
\<close>

lemma parse_string_body_length:
  "parse_string_body s = Some (x, r) \<Longrightarrow> length r < length s"
proof (induction s arbitrary: x r rule: parse_string_body.induct)
  case 1
  then show ?case by simp
next
  case (2 c cs)
  show ?case
  proof (cases "c = 34")
    case True
    with 2(4) show ?thesis by simp
  next
    case q: False
    show ?thesis
    proof (cases "c = 92")
      case False
      with q 2(4) obtain str where "parse_string_body cs = Some (str, r)"
        by (auto split: if_splits option.splits)
      from 2(3) [OF q False _ this] q False 2(4) show ?thesis
        by (auto split: if_splits)
    next
      case True
      show ?thesis
      proof (cases cs)
        case Nil
        with q True 2(4) show ?thesis by simp
      next
        case (Cons e cs')
        show ?thesis
        proof (cases "e = 117")
          case False
          with q True Cons 2(4) obtain ch str where "unescape e = Some ch"
            "parse_string_body cs' = Some (str, r)"
            by (auto split: option.splits)
          from 2(2) [OF q True Cons False this] Cons show ?thesis by simp
        next
          case u: True
          with q True Cons 2(4) obtain h1 h2 h3 h4 r0 a b c' d str where
            cs': "cs' = h1 # h2 # h3 # h4 # r0"
            and hv: "hex_val h1 = Some a" "hex_val h2 = Some b" "hex_val h3 = Some c'" "hex_val h4 = Some d"
            and p: "parse_string_body r0 = Some (str, r)"
            by (auto split: list.splits option.splits)
          have "length r < length r0"
            by (rule 2(1) [OF q True Cons u cs' refl refl refl refl hv(1) refl hv(2) refl hv(3) hv(4) p])
          with Cons cs' show ?thesis by simp
        qed
      qed
    qed
  qed
qed

lemma parse_number_length:
  assumes "parse_number s = Some (v, r)"
  shows "length r < length s"
proof -
  define neg where "neg \<longleftrightarrow> s \<noteq> [] \<and> hd s = 45"
  define s1 where "s1 = (if neg then tl s else s)"
  define ds where "ds = (if s1 \<noteq> [] \<and> hd s1 = 48 then [48] else takeWhile is_digit s1)"
  define s2 where "s2 = drop (length ds) s1"
  define has_frac where "has_frac \<longleftrightarrow> s2 \<noteq> [] \<and> hd s2 = 46"
  define fs where "fs = (if has_frac then takeWhile is_digit (tl s2) else [])"
  define s3 where "s3 = (if has_frac then drop (length fs) (tl s2) else s2)"
  define has_exp where "has_exp \<longleftrightarrow> s3 \<noteq> [] \<and> (hd s3 = 101 \<or> hd s3 = 69)"
  define s4 where "s4 = (if has_exp then tl s3 else s3)"
  define s5 where
    "s5 = (if has_exp \<and> s4 \<noteq> [] \<and> (hd s4 = 45 \<or> hd s4 = 43) then tl s4 else s4)"
  define es where "es = (if has_exp then takeWhile is_digit s5 else [])"
  define s6 where "s6 = drop (length es) s5"
  have eq: "parse_number s =
      (if ds = [] then None
       else if has_frac \<and> fs = [] then None
       else if has_exp \<and> es = [] then None
       else (case normalise (if neg then - digits_value (ds @ fs) else digits_value (ds @ fs))
                    ((if has_exp \<and> s4 \<noteq> [] \<and> hd s4 = 45 then - digits_value es
                      else digits_value es) - int (length fs)) of
               (m, e) \<Rightarrow> Some (JNum m e, s6)))"
    unfolding parse_number_def Let_def neg_def s1_def ds_def s2_def has_frac_def fs_def s3_def
      has_exp_def s4_def s5_def es_def s6_def
    by (rule refl)
  from assms have ds: "ds \<noteq> []" and r: "r = s6"
    unfolding eq by (simp_all split: if_splits prod.splits)
  have a: "length s1 \<le> length s" unfolding s1_def by simp
  have b: "length ds \<le> length s1"
    unfolding ds_def by (cases s1) (simp_all add: length_takeWhile_le)
  from ds have c: "0 < length ds" by simp
  have "length s2 < length s" unfolding s2_def length_drop using a b c by arith
  moreover have "length s3 \<le> length s2" unfolding s3_def by simp
  moreover have "length s4 \<le> length s3" unfolding s4_def by simp
  moreover have "length s5 \<le> length s4" unfolding s5_def by simp
  moreover have "length s6 \<le> length s5" unfolding s6_def by simp
  ultimately show ?thesis unfolding r by linarith
qed

lemma parse_scalar_length:
  assumes "parse_scalar s = Some (v, r)"
  shows "length r < length s"
proof -
  have four: "take 4 s = js t \<Longrightarrow> length t = 4 \<Longrightarrow> length (drop 4 s) < length s" for t
    by (cases s) (simp_all add: js_def)
  have five: "take 5 s = js t \<Longrightarrow> length t = 5 \<Longrightarrow> length (drop 5 s) < length s" for t
    by (cases s) (simp_all add: js_def)
  consider (a) "take 4 s = js ''null''" "r = drop 4 s"
    | (b) "take 4 s = js ''true''" "r = drop 4 s"
    | (c) "take 5 s = js ''false''" "r = drop 5 s"
    | (d) str where "s \<noteq> []" "parse_string_body (tl s) = Some (str, r)"
    | (e) "parse_number s = Some (v, r)"
    using assms unfolding parse_scalar_def by (auto split: if_splits option.splits)
  then show ?thesis
  proof cases
    case a
    from four [OF a(1)] a(2) show ?thesis by simp
  next
    case b
    from four [OF b(1)] b(2) show ?thesis by simp
  next
    case c
    from five [OF c(1)] c(2) show ?thesis by simp
  next
    case d
    from parse_string_body_length [OF d(2)] d(1) show ?thesis by (cases s) simp_all
  next
    case e
    then show ?thesis by (rule parse_number_length)
  qed
qed

lemma skip_ws_length: "length (skip_ws s) \<le> length s"
  unfolding skip_ws_def by (rule length_dropWhile_le)

lemma parse_length:
  "parse_value s = Some (v, r) \<Longrightarrow> length r < length s"
  "parse_elems s = Some (vs, r) \<Longrightarrow> length r < length s"
  "parse_members s = Some (ms, r) \<Longrightarrow> length r < length s"
proof (induction s and s and s arbitrary: v r and vs r and ms r
       rule: parse_value_parse_elems_parse_members.induct)
  case (1 s)
  from 1(3) obtain c cs where sk: "skip_ws s = c # cs"
    by (subst (asm) parse_value.simps) (auto split: list.splits)
  have cs: "length cs < length s" by (rule skip_ws_Cons_length [OF sk])
  show ?case
  proof (cases "c = 91")
    case True
    with 1(3) sk obtain d ds where sk2: "skip_ws cs = d # ds"
      by (subst (asm) parse_value.simps) (auto split: list.splits)
    show ?thesis
    proof (cases "d = 93")
      case t: True
      with 1(3) sk True sk2 have "r = ds"
        by (subst (asm) parse_value.simps) simp
      with skip_ws_Cons_length [OF sk2] cs show ?thesis by simp
    next
      case False
      with 1(3) sk True sk2 obtain vs where "parse_elems cs = Some (vs, r)"
        by (subst (asm) parse_value.simps) (auto split: option.splits)
      from 1(1) [OF sk True sk2 False this] cs show ?thesis by simp
    qed
  next
    case n: False
    show ?thesis
    proof (cases "c = 123")
      case True
      with n 1(3) sk obtain d ds where sk2: "skip_ws cs = d # ds"
        by (subst (asm) parse_value.simps) (auto split: list.splits)
      show ?thesis
      proof (cases "d = 125")
        case t: True
        with 1(3) sk n True sk2 have "r = ds"
          by (subst (asm) parse_value.simps) simp
        with skip_ws_Cons_length [OF sk2] cs show ?thesis by simp
      next
        case False
        with 1(3) sk n True sk2 obtain ms where "parse_members cs = Some (ms, r)"
          by (subst (asm) parse_value.simps) (auto split: option.splits)
        from 1(2) [OF sk n True sk2 False this] cs show ?thesis by simp
      qed
    next
      case False
      with n 1(3) sk have "parse_scalar (c # cs) = Some (v, r)"
        by (subst (asm) parse_value.simps) simp
      from parse_scalar_length [OF this] skip_ws_length [of s] sk show ?thesis by simp
    qed
  qed
next
  case (2 s)
  from 2(3) obtain v r0 where pv: "parse_value s = Some (v, r0)"
    by (subst (asm) parse_elems.simps) (auto split: option.splits)
  from 2(1) [OF pv] have lt: "length r0 < length s" .
  from 2(3) pv lt obtain d ds where sk: "skip_ws r0 = d # ds"
    by (subst (asm) parse_elems.simps) (auto split: list.splits)
  have ds: "length ds < length r0" by (rule skip_ws_Cons_length [OF sk])
  show ?case
  proof (cases "d = 44")
    case True
    with 2(3) pv lt sk obtain vs' where "parse_elems ds = Some (vs', r)"
      by (subst (asm) parse_elems.simps) (auto split: option.splits)
    from 2(2) [OF pv refl lt sk True this] ds lt show ?thesis by simp
  next
    case False
    with 2(3) pv lt sk have "r = ds"
      by (subst (asm) parse_elems.simps) (auto split: if_splits)
    with ds lt show ?thesis by simp
  qed
next
  case (3 s)
  from 3(3) obtain c cs where sk: "skip_ws s = c # cs"
    by (subst (asm) parse_members.simps) (auto split: list.splits)
  from 3(3) sk have c: "c = 34"
    by (subst (asm) parse_members.simps) (auto split: if_splits)
  from 3(3) sk c obtain k r1 where ps: "parse_string_body cs = Some (k, r1)"
    by (subst (asm) parse_members.simps) (auto split: option.splits)
  from 3(3) sk c ps obtain d ds where sk1: "skip_ws r1 = d # ds"
    by (subst (asm) parse_members.simps) (auto split: list.splits)
  from 3(3) sk c ps sk1 have d: "d = 58 \<and> length ds < length s"
    by (subst (asm) parse_members.simps) (auto split: if_splits)
  from 3(3) sk c ps sk1 d obtain v r2 where pv: "parse_value ds = Some (v, r2)"
    by (subst (asm) parse_members.simps) (auto split: option.splits)
  from 3(3) sk c ps sk1 d pv have lt: "length r2 < length s"
    by (subst (asm) parse_members.simps) (auto split: if_splits)
  from 3(3) sk c ps sk1 d pv lt obtain e es where sk2: "skip_ws r2 = e # es"
    by (subst (asm) parse_members.simps) (auto split: list.splits)
  have es: "length es < length r2" by (rule skip_ws_Cons_length [OF sk2])
  show ?case
  proof (cases "e = 44")
    case True
    with 3(3) sk c ps sk1 d pv lt sk2 obtain ms' where "parse_members es = Some (ms', r)"
      by (subst (asm) parse_members.simps) (auto split: option.splits)
    from 3(2) [OF sk c ps refl sk1 d pv refl lt sk2 True this] es lt show ?thesis by simp
  next
    case False
    with 3(3) sk c ps sk1 d pv lt sk2 have "r = es"
      by (subst (asm) parse_members.simps) (auto split: if_splits)
    with es lt show ?thesis by simp
  qed
qed

lemma parse_members_guard:
  assumes "skip_ws s = c # cs" and "parse_string_body cs = Some (k, r1)"
    and "skip_ws r1 = d # ds"
  shows "length ds < length s"
    and "parse_value ds = Some (v, r2) \<Longrightarrow> length r2 < length s"
proof -
  from skip_ws_Cons_length [OF assms(1)] parse_string_body_length [OF assms(2)]
    skip_ws_Cons_length [OF assms(3)]
  show ds: "length ds < length s" by linarith
  assume "parse_value ds = Some (v, r2)"
  from parse_length(1) [OF this] ds show "length r2 < length s" by linarith
qed

section \<open>Properties of the token codec\<close>

lemma split_on_no_sep: "sep \<notin> set s \<Longrightarrow> split_on sep s = [s]"
  by (induction s) auto

lemma split_on_append:
  "sep \<notin> set a \<Longrightarrow> split_on sep (a @ sep # rest) = a # split_on sep rest"
  by (induction a) auto

lemma split_on_three:
  assumes "sep \<notin> set a" "sep \<notin> set b" "sep \<notin> set c"
  shows "split_on sep (a @ [sep] @ b @ [sep] @ c) = [a, b, c]"
  using assms by (simp add: split_on_append split_on_no_sep)

lemma js_dot: "js ''.'' = [46]"
  by (simp add: js_def)


lemma split_signed:
  "split_on 46 (sign_header @ [46] @ sign_body payload @ [46] @ sign_signature payload key)
     = [sign_header, sign_body payload, sign_signature payload key]"
  by (rule split_on_three)
     (simp_all add: sign_header_def sign_body_def sign_signature_def b64url_no_dot)

lemma verifyJWT_three:
  assumes "split_on 46 token = [h, b, s]"
  shows "verifyJWT token secret now =
     (case importKey secret of
        Inl err \<Rightarrow> Inl err
      | Inr key \<Rightarrow>
          (case b64urlDecode s of
             Inl err \<Rightarrow> Inl err
           | Inr signature \<Rightarrow>
               if \<not> subtle_verify key signature (TextEncode (h @ [46] @ b)) then Inr None
               else Inr (read_body b now)))"
  using assms
  by (simp add: verifyJWT_def read_body_def check_exp_def js_dot
      split: sum.splits option.splits json.splits)

lemma verifyJWT_not_three:
  assumes "length (split_on 46 token) \<noteq> 3"
  shows "verifyJWT token secret now = Inr None"
proof -
  obtain xs where xs: "split_on 46 token = xs" by simp
  with assms have "length xs \<noteq> 3" by simp
  then have "(case xs of [h, b, s] \<Rightarrow> f h b s | _ \<Rightarrow> g) = g" for f :: "jsstring \<Rightarrow> jsstring \<Rightarrow> jsstring \<Rightarrow> js_error + json option" and g
    by (auto split: list.splits)
  then show ?thesis
    unfolding verifyJWT_def xs by simp
qed

lemma code_points_Nil: "code_points xs = [] \<longleftrightarrow> xs = []"
  by (cases xs rule: code_points.cases) simp_all

lemma TextEncode_Nil: "TextEncode s = [] \<longleftrightarrow> s = []"
proof -
  have "utf8_bytes cp \<noteq> []" for cp
    by (simp add: utf8_bytes_def)
  then have "concat (map utf8_bytes cps) = [] \<longleftrightarrow> cps = []" for cps
    by (cases cps) simp_all
  then show ?thesis
    by (simp add: TextEncode_def code_points_Nil)
qed

lemma importKey_eq: "s \<noteq> [] \<Longrightarrow> importKey s = Inr (TextEncode s)"
  by (simp add: importKey_def TextEncode_Nil)

lemma importKey_empty: "importKey [] = Inl DataError"
  by (simp add: importKey_def TextEncode_def)


lemma read_signed_body:
  "read_body (sign_body payload) now =
     (case JSON_parse (TextDecode (TextEncode (JSON_stringify payload))) of
        Inl err \<Rightarrow> None
      | Inr p \<Rightarrow> check_exp p now)"
  by (simp add: read_body_def sign_body_def b64urlDecode_b64url)





lemmas json_eval =
  JSON_parse_def parse_value.simps parse_members.simps parse_elems.simps js_def skip_ws_def
  json_ws_def quote_def number_to_string_def jnum_def Let_def parse_scalar_def parse_number_def
  is_digit_def digits_value_def make_object_def obj_set_def unescape_def hex_val_def
  high_surrogate_def low_surrogate_def hex4_def hex_digit_def normalise.simps digits.simps

lemmas text_eval =
  utf8_bytes_def utf16_units_def drop_bom_def high_surrogate_def low_surrogate_def
  TextDecode_def TextEncode_def

lemma replicate8: "replicate 8 x = [x, x, x, x, x, x, x, x]"
  by (simp add: numeral_eq_Suc)

lemma stringify_demo:
  "JSON_stringify demo_exp9 =
     [123, 34, 115, 117, 98, 34, 58, 34, 117, 49, 34, 44, 34, 101, 120, 112, 34, 58, 57, 125]"
  "JSON_stringify demo_no_exp = [123, 34, 115, 117, 98, 34, 58, 34, 117, 49, 34, 125]"
  "JSON_stringify demo_text_exp =
     [123, 34, 115, 117, 98, 34, 58, 34, 117, 49, 34, 44, 34, 101, 120, 112, 34, 58, 34, 57, 34,
      125]"
  "JSON_stringify demo_payload =
     [123, 34, 115, 117, 98, 34, 58, 34, 117, 49, 34, 44, 34, 101, 120, 112, 34, 58, 49, 55, 48,
      48, 48, 48, 48, 48, 48, 48, 125]"
  by (simp_all add: demo_exp9_def demo_no_exp_def demo_text_exp_def demo_payload_def json_eval
      replicate8)

lemma demo_roundtrip:
  "JSON_parse (TextDecode (TextEncode (JSON_stringify demo_exp9))) = Inr demo_exp9"
  "JSON_parse (TextDecode (TextEncode (JSON_stringify demo_no_exp))) = Inr demo_no_exp"
  "JSON_parse (TextDecode (TextEncode (JSON_stringify demo_text_exp))) = Inr demo_text_exp"
  "JSON_parse (TextDecode (TextEncode (JSON_stringify demo_payload))) = Inr demo_payload"
proof -
  have t: "TextDecode (TextEncode (JSON_stringify demo_exp9)) = JSON_stringify demo_exp9"
    "TextDecode (TextEncode (JSON_stringify demo_no_exp)) = JSON_stringify demo_no_exp"
    "TextDecode (TextEncode (JSON_stringify demo_text_exp)) = JSON_stringify demo_text_exp"
    "TextDecode (TextEncode (JSON_stringify demo_payload)) = JSON_stringify demo_payload"
    unfolding stringify_demo by (simp_all add: text_eval)
  show "JSON_parse (TextDecode (TextEncode (JSON_stringify demo_exp9))) = Inr demo_exp9"
    unfolding stringify_demo t [unfolded stringify_demo] by (simp add: demo_exp9_def json_eval)
  show "JSON_parse (TextDecode (TextEncode (JSON_stringify demo_no_exp))) = Inr demo_no_exp"
    unfolding stringify_demo t [unfolded stringify_demo] by (simp add: demo_no_exp_def json_eval)
  show "JSON_parse (TextDecode (TextEncode (JSON_stringify demo_text_exp))) = Inr demo_text_exp"
    unfolding stringify_demo t [unfolded stringify_demo] by (simp add: demo_text_exp_def json_eval)
  show "JSON_parse (TextDecode (TextEncode (JSON_stringify demo_payload))) = Inr demo_payload"
    unfolding stringify_demo t [unfolded stringify_demo] by (simp add: demo_payload_def json_eval)
qed

lemma demo_exp:
  "get_prop demo_exp9 (js ''exp'') = Some (JNum 9 0)"
  "get_prop demo_payload (js ''exp'') = Some (JNum 17 8)"
  "get_prop demo_no_exp (js ''exp'') = None"
  "get_prop demo_text_exp (js ''exp'') = Some (JStr (js ''9''))"
  "jnum 9 = JNum 9 0" "jnum 1700000000 = JNum 17 8"
  by (simp_all add: get_prop_def demo_exp9_def demo_no_exp_def demo_text_exp_def demo_payload_def
      jnum_def js_def normalise.simps)

lemma demo_secret_eq: "demo_secret \<noteq> []" "TextEncode demo_secret = [107]"
  "demo_secret @ [0] \<noteq> []" "TextEncode (demo_secret @ [0]) = [107] @ [0]"
  "demo_secret \<noteq> demo_secret @ [0]"
  by (simp_all add: demo_secret_def js_def text_eval)




text \<open>
  A token of three segments with a correct signature, at a non-empty secret: what
  \<open>verifyJWT\<close> returns is what the \<open>try\<close> block makes of the body.
\<close>

lemma verifyJWT_signed:
  assumes "split_on 46 token = [h, b, s]"
    and "secret \<noteq> []"
    and "b64urlDecode s = Inr sg"
    and "subtle_verify (TextEncode secret) sg (TextEncode (h @ js ''.'' @ b))"
  shows "verifyJWT token secret now = Inr (read_body b now)"
  using assms(3,4)
  by (simp add: verifyJWT_three [OF assms(1)] importKey_eq [OF assms(2)] js_dot)

lemma demo_token_parts:
  "split_on 46 (demo_token P) = [sign_header, sign_body P, sign_signature P (TextEncode demo_secret)]"
  "b64urlDecode (sign_signature P (TextEncode demo_secret))
     = Inr (subtle_sign (TextEncode demo_secret) (TextEncode (sign_header @ js ''.'' @ sign_body P)))"
  "subtle_verify (TextEncode demo_secret)
     (subtle_sign (TextEncode demo_secret) (TextEncode (sign_header @ js ''.'' @ sign_body P)))
     (TextEncode (sign_header @ js ''.'' @ sign_body P))"
  "b64urlDecode (sign_body P) = Inr (TextEncode (JSON_stringify P))"
proof -
  show "split_on 46 (demo_token P)
      = [sign_header, sign_body P, sign_signature P (TextEncode demo_secret)]"
    unfolding demo_token_def js_dot by (rule split_signed)
qed (simp_all add: sign_signature_def sign_body_def b64urlDecode_b64url subtle_verify_def
      subtle_sign_def)




text \<open>
  C9. For every token of three segments with a correct signature under a non-empty
  secret, whose body decodes and parses to a payload other than \<open>null\<close> that has no \<open>exp\<close>
  property or one that is not a number: \<open>verifyJWT\<close> returns the payload, whatever the
  current time.
\<close>

theorem verifyJWT_no_exp:
  assumes "split_on 46 token = [h, b, s]"
    and "secret \<noteq> []"
    and "b64urlDecode s = Inr sg"
    and "subtle_verify (TextEncode secret) sg (TextEncode (h @ js ''.'' @ b))"
    and "b64urlDecode b = Inr bytes"
    and "JSON_parse (TextDecode bytes) = Inr p"
    and "p \<noteq> JNull"
    and "\<forall>m e. get_prop p (js ''exp'') \<noteq> Some (JNum m e)"
  shows "verifyJWT token secret now = Inr (Some p)"
proof -
  have "check_exp p now = Some p"
    using assms(7,8) by (auto simp: check_exp_def split: option.splits json.splits)
  then have "read_body b now = Some p"
    using assms(5,6) by (simp add: read_body_def)
  then show ?thesis
    using verifyJWT_signed [OF assms(1-4)] by simp
qed

text \<open>
  The theorem at two concrete inputs, ten thousand years from the epoch: a payload
  without \<open>exp\<close>, and a payload whose \<open>exp\<close> is the string \<open>"9"\<close>.
\<close>

theorem verifyJWT_no_exp_witness:
  "demo_secret \<noteq> []
   \<and> JSON_parse (TextDecode (TextEncode (JSON_stringify demo_no_exp))) = Inr demo_no_exp
   \<and> get_prop demo_no_exp (js ''exp'') = None
   \<and> verifyJWT (demo_token demo_no_exp) demo_secret 315360000000000 = Inr (Some demo_no_exp)
   \<and> JSON_parse (TextDecode (TextEncode (JSON_stringify demo_text_exp))) = Inr demo_text_exp
   \<and> get_prop demo_text_exp (js ''exp'') = Some (JStr (js ''9''))
   \<and> verifyJWT (demo_token demo_text_exp) demo_secret 315360000000000 = Inr (Some demo_text_exp)"
proof -
  have a: "demo_no_exp \<noteq> JNull" "demo_text_exp \<noteq> JNull"
    by (simp_all add: demo_no_exp_def demo_text_exp_def)
  have b: "\<forall>m e. get_prop demo_no_exp (js ''exp'') \<noteq> Some (JNum m e)"
    "\<forall>m e. get_prop demo_text_exp (js ''exp'') \<noteq> Some (JNum m e)"
    by (simp_all add: demo_exp)
  show ?thesis
    using verifyJWT_no_exp [OF demo_token_parts(1) demo_secret_eq(1) demo_token_parts(2,3,4)
        demo_roundtrip(2) a(1) b(1), of 315360000000000]
      verifyJWT_no_exp [OF demo_token_parts(1) demo_secret_eq(1) demo_token_parts(2,3,4)
        demo_roundtrip(3) a(2) b(2), of 315360000000000]
      demo_secret_eq(1) demo_roundtrip(2,3) demo_exp(3,4)
    by simp
qed

text \<open>
  When \<open>verifyJWT\<close> raises: never for a token that is not of three segments; for one
  of three segments, only on an empty secret (\<open>DataError\<close> from \<open>importKey\<close>), or on a
  signature segment that \<open>atob\<close> cannot decode (\<open>InvalidCharacterError\<close>), which is
  decoded outside the \<open>try\<close> block. A body segment that is not base64, not JSON, or
  \<open>null\<close>, gives \<open>null\<close>.
\<close>

lemma when_verifyJWT_raises:
  "verifyJWT token secret now = Inl err \<longleftrightarrow>
     (\<exists>h b s. split_on 46 token = [h, b, s] \<and>
        (secret = [] \<and> err = DataError \<or>
         secret \<noteq> [] \<and> b64urlDecode s = Inl err))"
proof (cases "length (split_on 46 token) = 3")
  case False
  then have "verifyJWT token secret now = Inr None"
    by (rule verifyJWT_not_three)
  moreover have "\<not> (\<exists>h b s. split_on 46 token = [h, b, s])"
    using False by auto
  ultimately show ?thesis by simp
next
  case True
  then obtain h b s where parts: "split_on 46 token = [h, b, s]"
    by (auto simp: length_Suc_conv numeral_3_eq_3)
  show ?thesis
  proof (cases "secret = []")
    case True
    then show ?thesis
      using parts by (auto simp: verifyJWT_three [OF parts] importKey_empty)
  next
    case False
    then show ?thesis
      using parts
      by (auto simp: verifyJWT_three [OF parts] importKey_eq split: sum.splits)
  qed
qed

lemma b64urlDecode_invalid: "b64urlDecode (js ''c'') = Inl InvalidCharacterError"
  by (simp add: js_def b64urlDecode_def atob_def replace_char_def ascii_whitespace_def
      strip_padding_def)

text \<open>
  C3 at the token \<open>a.b.c\<close>, with the secret \<open>k\<close>: three segments, the third not
  decodable; \<open>verifyJWT\<close> raises \<open>InvalidCharacterError\<close>, and so does the middleware
  on the cookie \<open>wokspec_session=a.b.c\<close>.
\<close>

theorem verifyJWT_raises:
  "verifyJWT (js ''a.b.c'') demo_secret 0 = Inl InvalidCharacterError
   \<and> requireAuth (Some (js ''wokspec_session=a.b.c'')) demo_secret empty_db 0
       = Inl InvalidCharacterError"
proof -
  have parts: "split_on 46 (js ''a.b.c'') = [js ''a'', js ''b'', js ''c'']"
    by (simp add: js_def)
  have v: "verifyJWT (js ''a.b.c'') demo_secret 0 = Inl InvalidCharacterError"
    by (simp add: verifyJWT_three [OF parts] importKey_eq [OF demo_secret_eq(1)]
        b64urlDecode_invalid)
  have "match_session (js ''wokspec_session=a.b.c'') = Some (js ''a.b.c'')"
    by (simp add: js_def COOKIE_NAME_def)
  then show ?thesis
    using v by (simp add: requireAuth_def)
qed

section \<open>Properties of the auth gate and of GET /auth/me\<close>

text \<open>An HMAC-SHA-256 tag has 32 bytes.\<close>

lemma length8_cases:
  assumes "length s = 8"
  obtains a b c d e f g h where "s = [a, b, c, d, e, f, g, h]"
proof -
  from assms obtain a b c d e f g h where "s = [a, b, c, d, e, f, g, h]"
    by (auto simp: length_Suc_conv eval_nat_numeral)
  then show ?thesis by (rule that)
qed

lemma length_sha_round: "length s = 8 \<Longrightarrow> length (sha_round s kw) = 8"
proof -
  assume "length s = 8"
  then obtain a b c d e f g h where s: "s = [a, b, c, d, e, f, g, h]"
    by (rule length8_cases)
  show ?thesis
    unfolding s by (cases kw) (simp add: Let_def)
qed

lemma length_foldl_sha_round: "length s = 8 \<Longrightarrow> length (foldl sha_round s kws) = 8"
  by (induction kws arbitrary: s) (simp_all add: length_sha_round)

lemma length_sha_block: "length hs = 8 \<Longrightarrow> length (sha_block hs block) = 8"
  by (simp add: sha_block_def length_foldl_sha_round)

lemma length_foldl_sha_block: "length hs = 8 \<Longrightarrow> length (foldl sha_block hs blocks) = 8"
  by (induction blocks arbitrary: hs) (simp_all add: length_sha_block)

lemma length_concat_be32: "length (concat (map be32_bytes ws)) = 4 * length ws"
  by (induction ws) (simp_all add: be32_bytes_def)

lemma length_sha256: "length (sha256 msg) = 32"
proof -
  have "length H256 = 8"
    by (simp add: H256_def)
  then show ?thesis
    by (simp add: sha256_def length_concat_be32 length_foldl_sha_block)
qed

lemma length_hmac: "length (hmac_sha256 k msg) = 32"
  by (simp add: hmac_sha256_def Let_def length_sha256)

lemma subtle_verify_length: "subtle_verify key sg msg \<Longrightarrow> length sg = 32"
  using length_hmac [of key msg] by (auto simp: subtle_verify_def)

text \<open>The cookie header that carries just the session cookie.\<close>

lemma match_session_cookie:
  assumes "tok \<noteq> []" and "59 \<notin> set tok"
  shows "match_session (js ''wokspec_session='' @ tok) = Some tok"
proof -
  have tw: "takeWhile (\<lambda>x. x \<noteq> 59) tok = tok"
    using assms(2) by (induction tok) auto
  show ?thesis
    using assms(1) by (simp add: js_def COOKIE_NAME_def Let_def tw del: takeWhile_eq_all_conv)
qed

lemma match_session_Nil: "match_session [] = None"
  by simp

lemma b64url_no_semicolon: "59 \<notin> set (b64url bs)"
proof -
  have "b64_code n \<noteq> 59" for n
    by (auto simp: b64_code_def)
  then have "b64_char n \<noteq> 59" for n
    using b64_char_eq_iff [of n 59] by auto
  then have "b64url_char n \<noteq> 59" for n
    by (simp add: b64url_char_def)
  then show ?thesis
    unfolding b64url_eq by auto
qed

lemma demo_token_cookie:
  "match_session (js ''wokspec_session='' @ demo_token P) = Some (demo_token P)"
proof (rule match_session_cookie)
  show "demo_token P \<noteq> []"
    by (simp add: demo_token_def js_dot)
  show "59 \<notin> set (demo_token P)"
    by (simp add: demo_token_def js_dot sign_header_def sign_body_def sign_signature_def
        b64url_no_semicolon)
qed

text \<open>The subject the gate reads off what \<open>verifyJWT\<close> returned.\<close>

lemma subject_cases:
  "(case (case payload of
            None \<Rightarrow> None
          | Some p \<Rightarrow>
              if falsy p then None
              else (case get_prop p (js ''sub'') of Some (JStr sub) \<Rightarrow> Some sub | _ \<Rightarrow> None)) of
      None \<Rightarrow> x
    | Some sub \<Rightarrow> f sub) =
   (case payload of
      None \<Rightarrow> x
    | Some p \<Rightarrow> (case get_prop p (js ''sub'') of Some (JStr sub) \<Rightarrow> f sub | _ \<Rightarrow> x))"
  by (auto simp: falsy_def get_prop_def split: option.splits json.splits)

lemma requireAuth_token:
  assumes "match_session (case cookie of None \<Rightarrow> [] | Some h \<Rightarrow> h) = Some token"
  shows "requireAuth cookie secret d now =
     (case verifyJWT token secret now of
        Inl err \<Rightarrow> Inl err
      | Inr payload \<Rightarrow>
          (case payload of
             None \<Rightarrow> Inr (Respond (unauthorized (js ''Invalid session'')))
           | Some p \<Rightarrow>
               (case get_prop p (js ''sub'') of
                  Some (JStr sub) \<Rightarrow>
                    (case select_user d sub of
                       None \<Rightarrow> Inr (Respond (unauthorized (js ''User not found'')))
                     | Some row \<Rightarrow> Inr (Next row))
                | _ \<Rightarrow> Inr (Respond (unauthorized (js ''Invalid session''))))))"
  using assms
  by (simp add: requireAuth_def subject_cases Let_def split: sum.splits)

lemma me_token:
  assumes "match_session (case cookie of None \<Rightarrow> [] | Some h \<Rightarrow> h) = Some token"
  shows "me cookie secret d now =
     (case verifyJWT token secret now of
        Inl err \<Rightarrow> Inl err
      | Inr payload \<Rightarrow>
          (case payload of
             None \<Rightarrow> Inr (c_json (me_error (js ''Invalid session'')) 401)
           | Some p \<Rightarrow>
               (case get_prop p (js ''sub'') of
                  Some (JStr sub) \<Rightarrow>
                    (case select_user d sub of
                       None \<Rightarrow> Inr (c_json (me_error (js ''User not found'')) 401)
                     | Some user \<Rightarrow>
                         Inr (c_json (JObj [(js ''ok'', JBool True), (js ''user'', user_json user)])
                                200))
                | _ \<Rightarrow> Inr (c_json (me_error (js ''Invalid session'')) 401))))"
  using assms
  by (simp add: me_def subject_cases Let_def split: sum.splits)

text \<open>
  C6. A request without cookie header, or whose header has no session cookie, gets the
  unauthenticated failure; so does one whose cookie holds a token of three segments with
  a decodable signature segment that is not the tag of \<open>header.body\<close> under the secret;
  so does one whose token verifies and names, as a string \<open>sub\<close>, no stored user. The
  wrapped operation runs (\<open>next()\<close> is called, with the user row in the context) exactly
  when the cookie is present, the token verifies with a string \<open>sub\<close>, and the user is
  found. Each failure has status 401.
\<close>

theorem requireAuth_gate:
  "requireAuth None secret d now = Inr (Respond (unauthorized (js ''Not authenticated'')))
   \<and> (match_session hdr = None \<longrightarrow>
        requireAuth (Some hdr) secret d now
          = Inr (Respond (unauthorized (js ''Not authenticated''))))
   \<and> (match_session hdr = Some token \<and> split_on 46 token = [h, b, s] \<and> secret \<noteq> [] \<and>
        b64urlDecode s = Inr sg \<and>
        \<not> subtle_verify (TextEncode secret) sg (TextEncode (h @ js ''.'' @ b)) \<longrightarrow>
        requireAuth (Some hdr) secret d now
          = Inr (Respond (unauthorized (js ''Invalid session''))))
   \<and> (match_session hdr = Some token \<and> verifyJWT token secret now = Inr (Some p) \<and>
        get_prop p (js ''sub'') = Some (JStr sub) \<and> select_user d sub = None \<longrightarrow>
        requireAuth (Some hdr) secret d now
          = Inr (Respond (unauthorized (js ''User not found''))))
   \<and> (requireAuth cookie secret d now = Inr (Next u) \<longleftrightarrow>
        (\<exists>hd' tok q sb. cookie = Some hd' \<and> match_session hd' = Some tok \<and>
           verifyJWT tok secret now = Inr (Some q) \<and>
           get_prop q (js ''sub'') = Some (JStr sb) \<and> select_user d sb = Some u))
   \<and> status (unauthorized msg) = 401"
proof (intro conjI impI)
  show "requireAuth None secret d now = Inr (Respond (unauthorized (js ''Not authenticated'')))"
    by (simp add: requireAuth_def)
  show "requireAuth (Some hdr) secret d now
      = Inr (Respond (unauthorized (js ''Not authenticated'')))"
    if "match_session hdr = None"
    using that by (simp add: requireAuth_def)
  show "requireAuth (Some hdr) secret d now = Inr (Respond (unauthorized (js ''Invalid session'')))"
    if "match_session hdr = Some token \<and> split_on 46 token = [h, b, s] \<and> secret \<noteq> [] \<and>
        b64urlDecode s = Inr sg \<and>
        \<not> subtle_verify (TextEncode secret) sg (TextEncode (h @ js ''.'' @ b))"
  proof -
    from that have "verifyJWT token secret now = Inr None"
      by (simp add: verifyJWT_three [of token h b s] importKey_eq js_dot)
    moreover have "match_session (case Some hdr of None \<Rightarrow> [] | Some h \<Rightarrow> h) = Some token"
      using that by simp
    ultimately show ?thesis
      by (simp add: requireAuth_token)
  qed
  show "requireAuth (Some hdr) secret d now = Inr (Respond (unauthorized (js ''User not found'')))"
    if "match_session hdr = Some token \<and> verifyJWT token secret now = Inr (Some p) \<and>
        get_prop p (js ''sub'') = Some (JStr sub) \<and> select_user d sub = None"
  proof -
    have "match_session (case Some hdr of None \<Rightarrow> [] | Some h \<Rightarrow> h) = Some token"
      using that by simp
    then show ?thesis
      using that by (simp add: requireAuth_token)
  qed
  show "requireAuth cookie secret d now = Inr (Next u) \<longleftrightarrow>
        (\<exists>hd' tok q sb. cookie = Some hd' \<and> match_session hd' = Some tok \<and>
           verifyJWT tok secret now = Inr (Some q) \<and>
           get_prop q (js ''sub'') = Some (JStr sb) \<and> select_user d sb = Some u)"
  proof (cases "match_session (case cookie of None \<Rightarrow> [] | Some h \<Rightarrow> h)")
    case None
    then have "requireAuth cookie secret d now
        = Inr (Respond (unauthorized (js ''Not authenticated'')))"
      by (simp add: requireAuth_def)
    moreover have "\<not> (\<exists>hd' tok. cookie = Some hd' \<and> match_session hd' = Some tok)"
      using None by auto
    ultimately show ?thesis by auto
  next
    case (Some tok)
    then obtain hd' where c: "cookie = Some hd'" "match_session hd' = Some tok"
      by (cases cookie) simp_all
    show ?thesis
      unfolding requireAuth_token [OF Some] using c
      by (auto split: sum.splits option.splits json.splits)
  qed
  show "status (unauthorized msg) = 401"
    by (simp add: unauthorized_def c_json_def)
qed

lemma demo_bad_signature:
  "split_on 46 (js ''a.b.AA'') = [js ''a'', js ''b'', js ''AA'']"
  "b64urlDecode (js ''AA'') = Inr [0]"
  "\<not> subtle_verify (TextEncode demo_secret) [0] (TextEncode (js ''a'' @ js ''.'' @ js ''b''))"
  "match_session (js ''wokspec_session=a.b.AA'') = Some (js ''a.b.AA'')"
proof -
  show "split_on 46 (js ''a.b.AA'') = [js ''a'', js ''b'', js ''AA'']"
    by (simp add: js_def)
  show "b64urlDecode (js ''AA'') = Inr [0]"
    by (simp add: js_def b64urlDecode_def atob_def replace_char_def ascii_whitespace_def
        strip_padding_def b64_val_def)
  show "\<not> subtle_verify (TextEncode demo_secret) [0] (TextEncode (js ''a'' @ js ''.'' @ js ''b''))"
    using subtle_verify_length [of "TextEncode demo_secret" "[0]"] by auto
  show "match_session (js ''wokspec_session=a.b.AA'') = Some (js ''a.b.AA'')"
    by (simp add: js_def COOKIE_NAME_def)
qed

lemma demo_verified:
  "verifyJWT (demo_token demo_payload) demo_secret 10000 = Inr (Some demo_payload)"
  "get_prop demo_payload (js ''sub'') = Some (JStr (js ''u1''))"
  "select_user empty_db (js ''u1'') = None"
  "select_user demo_db (js ''u1'')
     = Some \<lparr>au_id = js ''u1'', au_email = Some (js ''a@x''), au_username = None,
             au_display_name = Some (js ''Ann''), au_avatar_url = None\<rparr>"
proof -
  have "read_body (sign_body demo_payload) 10000 = Some demo_payload"
    by (simp add: read_signed_body demo_roundtrip check_exp_def demo_exp num_less_def)
      (simp add: demo_payload_def)
  then show "verifyJWT (demo_token demo_payload) demo_secret 10000 = Inr (Some demo_payload)"
    using verifyJWT_signed [OF demo_token_parts(1) demo_secret_eq(1) demo_token_parts(2,3)]
    by simp
  show "get_prop demo_payload (js ''sub'') = Some (JStr (js ''u1''))"
    by (simp add: get_prop_def demo_payload_def js_def)
  show "select_user empty_db (js ''u1'') = None"
    by (simp add: select_user_def empty_db_def)
  show "select_user demo_db (js ''u1'')
     = Some \<lparr>au_id = js ''u1'', au_email = Some (js ''a@x''), au_username = None,
             au_display_name = Some (js ''Ann''), au_avatar_url = None\<rparr>"
    unfolding demo_db_eq by (simp add: select_user_def)
qed

text \<open>
  The theorem at concrete requests: no cookie header; a header without the session
  cookie; the cookie \<open>a.b.AA\<close>, whose signature segment decodes to one byte; the cookie
  of a signed, unexpired token for user \<open>u1\<close>, first on the empty database, then on the
  example database, where the user exists.
\<close>

theorem requireAuth_gate_witness:
  "requireAuth None demo_secret empty_db 10000
     = Inr (Respond (unauthorized (js ''Not authenticated'')))
   \<and> requireAuth (Some (js ''theme=dark'')) demo_secret empty_db 10000
     = Inr (Respond (unauthorized (js ''Not authenticated'')))
   \<and> requireAuth (Some (js ''wokspec_session=a.b.AA'')) demo_secret empty_db 10000
     = Inr (Respond (unauthorized (js ''Invalid session'')))
   \<and> requireAuth (Some (demo_cookie demo_payload)) demo_secret empty_db 10000
     = Inr (Respond (unauthorized (js ''User not found'')))
   \<and> requireAuth (Some (demo_cookie demo_payload)) demo_secret demo_db 10000
     = Inr (Next \<lparr>au_id = js ''u1'', au_email = Some (js ''a@x''), au_username = None,
                   au_display_name = Some (js ''Ann''), au_avatar_url = None\<rparr>)
   \<and> status (unauthorized (js ''Invalid session'')) = 401"
proof -
  have none: "match_session (js ''theme=dark'') = None"
    by (simp add: js_def COOKIE_NAME_def)
  have ck: "match_session (demo_cookie demo_payload) = Some (demo_token demo_payload)"
    unfolding demo_cookie_def by (rule demo_token_cookie)
  note g1 = requireAuth_gate [where secret = demo_secret and d = empty_db and now = 10000
      and hdr = "js ''theme=dark''" and msg = "js ''Invalid session''"]
  note g2 = requireAuth_gate [where secret = demo_secret and d = empty_db and now = 10000
      and hdr = "js ''wokspec_session=a.b.AA''" and token = "js ''a.b.AA''" and h = "js ''a''"
      and b = "js ''b''" and s = "js ''AA''" and sg = "[0]"]
  note g3 = requireAuth_gate [where secret = demo_secret and d = empty_db and now = 10000
      and hdr = "demo_cookie demo_payload" and token = "demo_token demo_payload"
      and p = demo_payload and sub = "js ''u1''"]
  note g4 = requireAuth_gate [where secret = demo_secret and d = demo_db and now = 10000
      and cookie = "Some (demo_cookie demo_payload)"
      and u = "\<lparr>au_id = js ''u1'', au_email = Some (js ''a@x''), au_username = None,
        au_display_name = Some (js ''Ann''), au_avatar_url = None\<rparr>"]
  have a: "requireAuth None demo_secret empty_db 10000
     = Inr (Respond (unauthorized (js ''Not authenticated'')))"
    using g1 by blast
  have b: "requireAuth (Some (js ''theme=dark'')) demo_secret empty_db 10000
     = Inr (Respond (unauthorized (js ''Not authenticated'')))"
    using g1 none by blast
  have c: "requireAuth (Some (js ''wokspec_session=a.b.AA'')) demo_secret empty_db 10000
     = Inr (Respond (unauthorized (js ''Invalid session'')))"
    using g2 demo_bad_signature demo_secret_eq(1) by blast
  have d: "requireAuth (Some (demo_cookie demo_payload)) demo_secret empty_db 10000
     = Inr (Respond (unauthorized (js ''User not found'')))"
    using g3 ck demo_verified(1,2,3) by blast
  have e: "requireAuth (Some (demo_cookie demo_payload)) demo_secret demo_db 10000
     = Inr (Next \<lparr>au_id = js ''u1'', au_email = Some (js ''a@x''), au_username = None,
                   au_display_name = Some (js ''Ann''), au_avatar_url = None\<rparr>)"
    using g4 ck demo_verified(1,2,4) by blast
  have f: "status (unauthorized (js ''Invalid session'')) = 401"
    using g1 by blast
  from a b c d e f show ?thesis by blast
qed

text \<open>
  C10. On the same cookie header, secret, database and time, \<open>GET /auth/me\<close> and
  \<open>requireAuth\<close> decide alike: where the middleware raises, the handler raises the same
  exception; where the middleware answers 401, the handler answers 401; where the
  middleware calls \<open>next()\<close> with a user row, the handler answers 200 with the five
  fields of that same row. So the handler answers 401 exactly when the middleware does,
  and answers 200 exactly when the middleware lets the request pass.
\<close>

theorem me_agrees_with_requireAuth:
  "(case requireAuth cookie secret d now of
      Inl err \<Rightarrow> me cookie secret d now = Inl err
    | Inr (Respond r) \<Rightarrow>
        status r = 401 \<and> (\<exists>r'. me cookie secret d now = Inr r' \<and> status r' = 401)
    | Inr (Next u) \<Rightarrow>
        me cookie secret d now
          = Inr (c_json (JObj [(js ''ok'', JBool True), (js ''user'', user_json u)]) 200))
   \<and> ((\<exists>r'. me cookie secret d now = Inr r' \<and> status r' = 401) \<longleftrightarrow>
        (\<exists>r. requireAuth cookie secret d now = Inr (Respond r) \<and> status r = 401))
   \<and> ((\<exists>r'. me cookie secret d now = Inr r' \<and> status r' = 200) \<longleftrightarrow>
        (\<exists>u. requireAuth cookie secret d now = Inr (Next u)))"
proof (cases "match_session (case cookie of None \<Rightarrow> [] | Some h \<Rightarrow> h)")
  case None
  then show ?thesis
    by (simp add: requireAuth_def me_def unauthorized_def c_json_def)
next
  case (Some token)
  show ?thesis
    unfolding requireAuth_token [OF Some] me_token [OF Some]
    by (auto simp: unauthorized_def c_json_def split: sum.splits option.splits json.splits)
qed

text \<open>
  The theorem at the requests of the previous witness: both answer 401 without a cookie
  and for an unknown user, and both resolve the same row for a stored user.
\<close>

theorem me_agrees_with_requireAuth_witness:
  "me None demo_secret empty_db 10000 = Inr (c_json (me_error (js ''Unauthorized'')) 401)
   \<and> requireAuth None demo_secret empty_db 10000
       = Inr (Respond (unauthorized (js ''Not authenticated'')))
   \<and> requireAuth (Some (demo_cookie demo_payload)) demo_secret demo_db 10000
       = Inr (Next \<lparr>au_id = js ''u1'', au_email = Some (js ''a@x''), au_username = None,
                     au_display_name = Some (js ''Ann''), au_avatar_url = None\<rparr>)
   \<and> me (Some (demo_cookie demo_payload)) demo_secret demo_db 10000
       = Inr (c_json (JObj [(js ''ok'', JBool True),
                (js ''user'', user_json \<lparr>au_id = js ''u1'', au_email = Some (js ''a@x''),
                   au_username = None, au_display_name = Some (js ''Ann''),
                   au_avatar_url = None\<rparr>)]) 200)"
proof -
  have ck: "match_session (case Some (demo_cookie demo_payload) of None \<Rightarrow> [] | Some h \<Rightarrow> h)
      = Some (demo_token demo_payload)"
    unfolding demo_cookie_def using demo_token_cookie by simp
  have a: "me None demo_secret empty_db 10000 = Inr (c_json (me_error (js ''Unauthorized'')) 401)"
    by (simp add: me_def)
  have b: "requireAuth None demo_secret empty_db 10000
       = Inr (Respond (unauthorized (js ''Not authenticated'')))"
    by (simp add: requireAuth_def)
  have c: "requireAuth (Some (demo_cookie demo_payload)) demo_secret demo_db 10000
       = Inr (Next \<lparr>au_id = js ''u1'', au_email = Some (js ''a@x''), au_username = None,
                     au_display_name = Some (js ''Ann''), au_avatar_url = None\<rparr>)"
    by (simp add: requireAuth_token [OF ck] demo_verified)
  from me_agrees_with_requireAuth [of "Some (demo_cookie demo_payload)" demo_secret demo_db 10000]
  have "me (Some (demo_cookie demo_payload)) demo_secret demo_db 10000
       = Inr (c_json (JObj [(js ''ok'', JBool True),
                (js ''user'', user_json \<lparr>au_id = js ''u1'', au_email = Some (js ''a@x''),
                   au_username = None, au_display_name = Some (js ''Ann''),
                   au_avatar_url = None\<rparr>)]) 200)"
    unfolding c by simp
  with a b c show ?thesis by simp
qed

section \<open>Properties of the callback handlers\<close>

lemma callback_rejected:
  assumes "absent code \<or> absent state"
  shows "callback p up secret kv d code state uuid1 uuid2 sqlnow now
     = \<lparr>result = Inr (c_json (error_json (js ''Missing code or state'')) 400),
        kv_after = kv, db_after = d, fetches = []\<rparr>"
  using assms
  by (cases p) (simp_all add: callback_def github_callback_def google_callback_def
      discord_callback_def)

lemma callback_invalid_state:
  assumes "\<not> absent code" and "state = Some st" and "st \<noteq> []"
    and "fst (consumeState kv st (nat (now div 1000))) = False"
  shows "callback p up secret kv d code state uuid1 uuid2 sqlnow now
     = \<lparr>result = Inr (c_json (error_json (js ''Invalid state'')) 400),
        kv_after = kv, db_after = d, fetches = []\<rparr>"
proof -
  have kv: "consumeState kv st (nat (now div 1000)) = (False, kv)"
    using assms(4) by (auto simp: consumeState_def split: option.splits if_splits)
  show ?thesis
    using assms(1-3)
    by (cases p) (auto simp: callback_def github_callback_def google_callback_def
        discord_callback_def absent_def kv)
qed

lemma login_fetches:
  "fetches (login secret kv d trace p pid prof tok uuid1 uuid2 sqlnow now) = trace"
  "kv_after (login secret kv d trace p pid prof tok uuid1 uuid2 sqlnow now) = kv"
  by (simp_all add: login_def split: prod.splits sum.splits)

lemma callback_consumed:
  assumes "\<not> absent code" and "state = Some st" and "st \<noteq> []"
    and "fst (consumeState kv st (nat (now div 1000))) = True"
  shows "kv_after (callback p up secret kv d code state uuid1 uuid2 sqlnow now)
           = kv_delete kv (state_key st)
       \<and> hd (fetches (callback p up secret kv d code state uuid1 uuid2 sqlnow now))
           = TokenExchange p (the code)
       \<and> fetches (callback p up secret kv d code state uuid1 uuid2 sqlnow now) \<noteq> []"
proof -
  have kv: "consumeState kv st (nat (now div 1000)) = (True, kv_delete kv (state_key st))"
    using assms(4) by (auto simp: consumeState_def split: option.splits if_splits)
  show ?thesis
    using assms(1-3)
    by (cases p) (auto simp: callback_def github_callback_def google_callback_def
        discord_callback_def absent_def kv Let_def login_fetches)
qed

text \<open>
  C8. For each of the three providers: a callback without \<open>code\<close> or without \<open>state\<close>
  answers 400 \<open>Missing code or state\<close>, and one whose \<open>state\<close> is not consumed (never
  issued, used before, or expired) answers 400 \<open>Invalid state\<close>; both without any call to
  a provider endpoint and without touching either store. If a handler made any provider
  call, then \<open>code\<close> and \<open>state\<close> were present, \<open>consumeState\<close> had returned true and
  deleted the nonce, and the first call was the token exchange.
\<close>

theorem callback_state_first:
  "(absent code \<or> absent state \<longrightarrow>
      callback p up secret kv d code state uuid1 uuid2 sqlnow now
        = \<lparr>result = Inr (c_json (error_json (js ''Missing code or state'')) 400),
           kv_after = kv, db_after = d, fetches = []\<rparr>)
   \<and> (\<not> absent code \<and> state = Some st \<and> st \<noteq> [] \<and> kv (state_key st) = None \<longrightarrow>
      callback p up secret kv d code state uuid1 uuid2 sqlnow now
        = \<lparr>result = Inr (c_json (error_json (js ''Invalid state'')) 400),
           kv_after = kv, db_after = d, fetches = []\<rparr>)
   \<and> (\<not> absent code \<and> state = Some st \<and> st \<noteq> [] \<and>
       fst (consumeState kv st (nat (now div 1000))) = False \<longrightarrow>
      callback p up secret kv d code state uuid1 uuid2 sqlnow now
        = \<lparr>result = Inr (c_json (error_json (js ''Invalid state'')) 400),
           kv_after = kv, db_after = d, fetches = []\<rparr>)
   \<and> (fetches (callback p up secret kv d code state uuid1 uuid2 sqlnow now) \<noteq> [] \<longrightarrow>
       \<not> absent code \<and> \<not> absent state \<and>
       fst (consumeState kv (the state) (nat (now div 1000))) = True \<and>
       kv_after (callback p up secret kv d code state uuid1 uuid2 sqlnow now)
         = kv_delete kv (state_key (the state)) \<and>
       hd (fetches (callback p up secret kv d code state uuid1 uuid2 sqlnow now))
         = TokenExchange p (the code))"
proof (intro conjI impI)
  show "callback p up secret kv d code state uuid1 uuid2 sqlnow now
        = \<lparr>result = Inr (c_json (error_json (js ''Missing code or state'')) 400),
           kv_after = kv, db_after = d, fetches = []\<rparr>"
    if "absent code \<or> absent state"
    using that by (rule callback_rejected)
  show "callback p up secret kv d code state uuid1 uuid2 sqlnow now
        = \<lparr>result = Inr (c_json (error_json (js ''Invalid state'')) 400),
           kv_after = kv, db_after = d, fetches = []\<rparr>"
    if "\<not> absent code \<and> state = Some st \<and> st \<noteq> [] \<and> kv (state_key st) = None"
    using that by (auto intro!: callback_invalid_state simp: consumeState_absent)
  show "callback p up secret kv d code state uuid1 uuid2 sqlnow now
        = \<lparr>result = Inr (c_json (error_json (js ''Invalid state'')) 400),
           kv_after = kv, db_after = d, fetches = []\<rparr>"
    if "\<not> absent code \<and> state = Some st \<and> st \<noteq> [] \<and>
       fst (consumeState kv st (nat (now div 1000))) = False"
    using that by (auto intro!: callback_invalid_state)
  assume made: "fetches (callback p up secret kv d code state uuid1 uuid2 sqlnow now) \<noteq> []"
  show present: "\<not> absent code" "\<not> absent state"
    using made callback_rejected [of code state p up secret kv d uuid1 uuid2 sqlnow now]
    by auto
  then obtain st' where st': "state = Some st'" "st' \<noteq> []"
    by (auto simp: absent_def)
  show consumed: "fst (consumeState kv (the state) (nat (now div 1000))) = True"
  proof (rule ccontr)
    assume "fst (consumeState kv (the state) (nat (now div 1000))) \<noteq> True"
    then have "fst (consumeState kv st' (nat (now div 1000))) = False"
      using st' by simp
    then have "fetches (callback p up secret kv d code state uuid1 uuid2 sqlnow now) = []"
      by (simp add: callback_invalid_state [OF present(1) st'])
    with made show False by simp
  qed
  show "kv_after (callback p up secret kv d code state uuid1 uuid2 sqlnow now)
         = kv_delete kv (state_key (the state))"
    and "hd (fetches (callback p up secret kv d code state uuid1 uuid2 sqlnow now))
         = TokenExchange p (the code)"
    using callback_consumed [OF present(1) st', of kv now p up secret d uuid1 uuid2 sqlnow]
      consumed st'
    by simp_all
qed

lemma demo_issued:
  "hex_join demo_rnd \<noteq> []"
  "fst (consumeState (snd (generateState Map.empty demo_rnd 100)) (hex_join demo_rnd)
     (nat (200000 div 1000))) = True"
  by (simp_all add: generateState_def consumeState_def kv_get_def kv_put_def Let_def js_def
      hex_join_def hex2_def demo_rnd_def)

text \<open>
  The theorem at concrete requests: a GitHub callback without \<open>code\<close>; a Google
  callback whose \<open>state\<close> was never issued; and a Discord callback whose \<open>state\<close> was
  issued at second 100 and comes back at second 200, which does call the provider, the
  nonce being consumed first.
\<close>

theorem callback_state_first_witness:
  "callback Github demo_upstream demo_secret Map.empty empty_db None (Some (js ''zz''))
       (js ''u-1'') (js ''k-1'') (js ''d1'') 200000
     = \<lparr>result = Inr (c_json (error_json (js ''Missing code or state'')) 400),
        kv_after = Map.empty, db_after = empty_db, fetches = []\<rparr>
   \<and> callback Google demo_upstream demo_secret Map.empty empty_db (Some (js ''c0''))
       (Some (js ''zz'')) (js ''u-1'') (js ''k-1'') (js ''d1'') 200000
     = \<lparr>result = Inr (c_json (error_json (js ''Invalid state'')) 400),
        kv_after = Map.empty, db_after = empty_db, fetches = []\<rparr>
   \<and> fetches (callback Discord demo_upstream demo_secret
         (snd (generateState Map.empty demo_rnd 100)) empty_db (Some (js ''c0''))
         (Some (hex_join demo_rnd)) (js ''u-1'') (js ''k-1'') (js ''d1'') 200000) \<noteq> []
   \<and> hd (fetches (callback Discord demo_upstream demo_secret
         (snd (generateState Map.empty demo_rnd 100)) empty_db (Some (js ''c0''))
         (Some (hex_join demo_rnd)) (js ''u-1'') (js ''k-1'') (js ''d1'') 200000))
       = TokenExchange Discord (js ''c0'')
   \<and> kv_after (callback Discord demo_upstream demo_secret
         (snd (generateState Map.empty demo_rnd 100)) empty_db (Some (js ''c0''))
         (Some (hex_join demo_rnd)) (js ''u-1'') (js ''k-1'') (js ''d1'') 200000)
       = kv_delete (snd (generateState Map.empty demo_rnd 100)) (state_key (hex_join demo_rnd))"
proof -
  have code: "\<not> absent (Some (js ''c0''))" "absent None" "js ''zz'' \<noteq> []"
    by (simp_all add: absent_def js_def)
  note a = callback_state_first [where p = Github and up = demo_upstream and secret = demo_secret
      and kv = Map.empty and d = empty_db and code = None and state = "Some (js ''zz'')"
      and ?uuid1.0 = "js ''u-1''" and ?uuid2.0 = "js ''k-1''" and sqlnow = "js ''d1''"
      and now = 200000]
  note b = callback_state_first [where p = Google and up = demo_upstream and secret = demo_secret
      and kv = Map.empty and d = empty_db and code = "Some (js ''c0'')"
      and state = "Some (js ''zz'')" and st = "js ''zz''"
      and ?uuid1.0 = "js ''u-1''" and ?uuid2.0 = "js ''k-1''" and sqlnow = "js ''d1''"
      and now = 200000]
  note c = callback_state_first [where p = Discord and up = demo_upstream and secret = demo_secret
      and kv = "snd (generateState Map.empty demo_rnd 100)" and d = empty_db
      and code = "Some (js ''c0'')" and state = "Some (hex_join demo_rnd)"
      and ?uuid1.0 = "js ''u-1''" and ?uuid2.0 = "js ''k-1''" and sqlnow = "js ''d1''"
      and now = 200000]
  have made: "fetches (callback Discord demo_upstream demo_secret
         (snd (generateState Map.empty demo_rnd 100)) empty_db (Some (js ''c0''))
         (Some (hex_join demo_rnd)) (js ''u-1'') (js ''k-1'') (js ''d1'') 200000) \<noteq> []"
    using callback_consumed [OF code(1) refl demo_issued] by blast
  from a code have 1: "callback Github demo_upstream demo_secret Map.empty empty_db None
       (Some (js ''zz'')) (js ''u-1'') (js ''k-1'') (js ''d1'') 200000
     = \<lparr>result = Inr (c_json (error_json (js ''Missing code or state'')) 400),
        kv_after = Map.empty, db_after = empty_db, fetches = []\<rparr>"
    by blast
  from b code have 2: "callback Google demo_upstream demo_secret Map.empty empty_db
       (Some (js ''c0'')) (Some (js ''zz'')) (js ''u-1'') (js ''k-1'') (js ''d1'') 200000
     = \<lparr>result = Inr (c_json (error_json (js ''Invalid state'')) 400),
        kv_after = Map.empty, db_after = empty_db, fetches = []\<rparr>"
    by simp
  from c made have 3: "hd (fetches (callback Discord demo_upstream demo_secret
         (snd (generateState Map.empty demo_rnd 100)) empty_db (Some (js ''c0''))
         (Some (hex_join demo_rnd)) (js ''u-1'') (js ''k-1'') (js ''d1'') 200000))
       = TokenExchange Discord (js ''c0'')"
    and 4: "kv_after (callback Discord demo_upstream demo_secret
         (snd (generateState Map.empty demo_rnd 100)) empty_db (Some (js ''c0''))
         (Some (hex_join demo_rnd)) (js ''u-1'') (js ''k-1'') (js ''d1'') 200000)
       = kv_delete (snd (generateState Map.empty demo_rnd 100)) (state_key (hex_join demo_rnd))"
    by simp_all
  from 1 2 made 3 4 show ?thesis by blast
qed

section \<open>The responses to forged and replayed requests\<close>

lemma demo_expired:
  "verifyJWT (demo_token demo_exp9) demo_secret 10000 = Inr None"
  "match_session (demo_cookie demo_exp9) = Some (demo_token demo_exp9)"
proof -
  have "read_body (sign_body demo_exp9) 10000 = None"
    by (simp add: read_signed_body demo_roundtrip check_exp_def demo_exp num_less_def)
  then show "verifyJWT (demo_token demo_exp9) demo_secret 10000 = Inr None"
    using verifyJWT_signed [OF demo_token_parts(1) demo_secret_eq(1) demo_token_parts(2,3)]
    by simp
  show "match_session (demo_cookie demo_exp9) = Some (demo_token demo_exp9)"
    unfolding demo_cookie_def by (rule demo_token_cookie)
qed

lemma invalid_session:
  assumes "match_session hdr = Some token" and "verifyJWT token secret now = Inr None"
  shows "me (Some hdr) secret d now = Inr (c_json (me_error (js ''Invalid session'')) 401)"
    and "requireAuth (Some hdr) secret d now = Inr (Respond (unauthorized (js ''Invalid session'')))"
proof -
  have m: "match_session (case Some hdr of None \<Rightarrow> [] | Some h \<Rightarrow> h) = Some token"
    using assms(1) by simp
  show "me (Some hdr) secret d now = Inr (c_json (me_error (js ''Invalid session'')) 401)"
    by (simp add: me_token [OF m] assms(2))
  show "requireAuth (Some hdr) secret d now = Inr (Respond (unauthorized (js ''Invalid session'')))"
    by (simp add: requireAuth_token [OF m] assms(2))
qed

lemma bodies_differ:
  "body (c_json (error_json (js ''Invalid state'')) 400)
     \<noteq> body (c_json (me_error (js ''Invalid session'')) 401)"
  "body (c_json (error_json (js ''Invalid state'')) 400)
     \<noteq> body (unauthorized (js ''Invalid session''))"
  by (simp_all add: c_json_def error_json_def me_error_def unauthorized_def error_body_def js_def)

text \<open>
  C7, as stated, fails: a GitHub callback with a state that was never issued is answered
  with the body \<open>{error: "Invalid state"}\<close> and status 400; a request with the cookie of
  an expired, correctly signed token is answered by \<open>GET /auth/me\<close> with
  \<open>{ok: false, error: "Invalid session"}\<close> and by the middleware with the
  \<open>UNAUTHORIZED\<close> body whose message is \<open>Invalid session\<close>, both with status 401. The
  bodies tell the two causes apart.
\<close>

theorem invalid_responses_counterexample:
  "result (callback Github demo_upstream demo_secret Map.empty empty_db (Some (js ''c0''))
      (Some (js ''zz'')) (js ''u-1'') (js ''k-1'') (js ''d1'') 10000)
     = Inr (c_json (error_json (js ''Invalid state'')) 400)
   \<and> me (Some (demo_cookie demo_exp9)) demo_secret empty_db 10000
     = Inr (c_json (me_error (js ''Invalid session'')) 401)
   \<and> requireAuth (Some (demo_cookie demo_exp9)) demo_secret empty_db 10000
     = Inr (Respond (unauthorized (js ''Invalid session'')))
   \<and> body (c_json (error_json (js ''Invalid state'')) 400)
     \<noteq> body (c_json (me_error (js ''Invalid session'')) 401)
   \<and> body (c_json (error_json (js ''Invalid state'')) 400)
     \<noteq> body (unauthorized (js ''Invalid session''))"
proof -
  have "\<not> absent (Some (js ''c0''))" "js ''zz'' \<noteq> []"
    by (simp_all add: absent_def js_def)
  then have "callback Github demo_upstream demo_secret Map.empty empty_db (Some (js ''c0''))
      (Some (js ''zz'')) (js ''u-1'') (js ''k-1'') (js ''d1'') 10000
     = \<lparr>result = Inr (c_json (error_json (js ''Invalid state'')) 400),
        kv_after = Map.empty, db_after = empty_db, fetches = []\<rparr>"
    by (intro callback_invalid_state) (simp_all add: consumeState_absent)
  then show ?thesis
    using invalid_session [OF demo_expired(2,1)] bodies_differ by simp
qed

text \<open>
  C7, amended. Within each of the two kinds of failure the response does not depend on
  the cause. Whatever made \<open>consumeState\<close> return false (the nonce never issued, used
  before, or expired), each provider's callback answers with the same body
  \<open>{error: "Invalid state"}\<close> and status 400. Whatever made \<open>verifyJWT\<close> return \<open>null\<close>
  (a wrong signature, an expired token, a body that does not decode or parse, a wrong
  number of segments), \<open>GET /auth/me\<close> answers \<open>{ok: false, error: "Invalid session"}\<close>
  and the middleware its \<open>UNAUTHORIZED\<close> body with message \<open>Invalid session\<close>, both with
  status 401. The body for a refused nonce is another than either body for a refused
  session.
\<close>

theorem invalid_responses_uniform:
  "(\<not> absent code \<and> state = Some st \<and> st \<noteq> [] \<and>
    fst (consumeState kv st (nat (now div 1000))) = False \<longrightarrow>
      result (callback p up secret kv d code state uuid1 uuid2 sqlnow now)
        = Inr (c_json (error_json (js ''Invalid state'')) 400))
   \<and> (match_session hdr = Some token \<and> verifyJWT token secret now = Inr None \<longrightarrow>
      me (Some hdr) secret d now = Inr (c_json (me_error (js ''Invalid session'')) 401) \<and>
      requireAuth (Some hdr) secret d now
        = Inr (Respond (unauthorized (js ''Invalid session''))))
   \<and> status (c_json (error_json (js ''Invalid state'')) 400) = 400
   \<and> status (c_json (me_error (js ''Invalid session'')) 401) = 401
   \<and> status (unauthorized (js ''Invalid session'')) = 401
   \<and> body (c_json (error_json (js ''Invalid state'')) 400)
       \<noteq> body (c_json (me_error (js ''Invalid session'')) 401)
   \<and> body (c_json (error_json (js ''Invalid state'')) 400)
       \<noteq> body (unauthorized (js ''Invalid session''))"
proof (intro conjI impI)
  show "result (callback p up secret kv d code state uuid1 uuid2 sqlnow now)
        = Inr (c_json (error_json (js ''Invalid state'')) 400)"
    if "\<not> absent code \<and> state = Some st \<and> st \<noteq> [] \<and>
        fst (consumeState kv st (nat (now div 1000))) = False"
    using that callback_invalid_state [of code state st kv now p up secret d uuid1 uuid2 sqlnow]
    by simp
  show "me (Some hdr) secret d now = Inr (c_json (me_error (js ''Invalid session'')) 401)"
    and "requireAuth (Some hdr) secret d now
        = Inr (Respond (unauthorized (js ''Invalid session'')))"
    if "match_session hdr = Some token \<and> verifyJWT token secret now = Inr None"
    using that invalid_session [of hdr token secret now d] by simp_all
qed (use bodies_differ in \<open>simp_all add: c_json_def unauthorized_def\<close>)

text \<open>
  The theorem at concrete requests: callbacks of two providers, one with a state never
  issued and one with a state that expired at second 700; and two cookies, one with an
  expired token and one that is not a token at all.
\<close>

theorem invalid_responses_uniform_witness:
  "result (callback Github demo_upstream demo_secret Map.empty empty_db (Some (js ''c0''))
      (Some (js ''zz'')) (js ''u-1'') (js ''k-1'') (js ''d1'') 10000)
     = Inr (c_json (error_json (js ''Invalid state'')) 400)
   \<and> result (callback Google demo_upstream demo_secret
        (snd (generateState Map.empty demo_rnd 100)) empty_db (Some (js ''c0''))
        (Some (hex_join demo_rnd)) (js ''u-1'') (js ''k-1'') (js ''d1'') 700000)
     = Inr (c_json (error_json (js ''Invalid state'')) 400)
   \<and> me (Some (demo_cookie demo_exp9)) demo_secret empty_db 10000
     = Inr (c_json (me_error (js ''Invalid session'')) 401)
   \<and> me (Some (js ''wokspec_session=abc'')) demo_secret empty_db 10000
     = Inr (c_json (me_error (js ''Invalid session'')) 401)
   \<and> requireAuth (Some (demo_cookie demo_exp9)) demo_secret empty_db 10000
     = Inr (Respond (unauthorized (js ''Invalid session'')))
   \<and> requireAuth (Some (js ''wokspec_session=abc'')) demo_secret empty_db 10000
     = Inr (Respond (unauthorized (js ''Invalid session'')))"
proof -
  have code: "\<not> absent (Some (js ''c0''))" "js ''zz'' \<noteq> []"
    "fst (consumeState Map.empty (js ''zz'') (nat (10000 div 1000))) = False"
    by (simp_all add: absent_def js_def consumeState_absent)
  have late: "fst (consumeState (snd (generateState Map.empty demo_rnd 100)) (hex_join demo_rnd)
     (nat (700000 div 1000))) = False"
    by (simp add: generateState_def consumeState_def kv_get_def kv_put_def Let_def)
  have abc: "match_session (js ''wokspec_session=abc'') = Some (js ''abc'')"
    "verifyJWT (js ''abc'') demo_secret 10000 = Inr None"
    by (simp_all add: js_def COOKIE_NAME_def verifyJWT_def)
  note a = invalid_responses_uniform [where code = "Some (js ''c0'')" and state = "Some (js ''zz'')"
      and st = "js ''zz''" and kv = Map.empty and now = 10000 and p = Github
      and up = demo_upstream and secret = demo_secret and d = empty_db
      and ?uuid1.0 = "js ''u-1''" and ?uuid2.0 = "js ''k-1''" and sqlnow = "js ''d1''"
      and hdr = "demo_cookie demo_exp9" and token = "demo_token demo_exp9"]
  note b = invalid_responses_uniform [where code = "Some (js ''c0'')"
      and state = "Some (hex_join demo_rnd)" and st = "hex_join demo_rnd"
      and kv = "snd (generateState Map.empty demo_rnd 100)" and now = 700000 and p = Google
      and up = demo_upstream and secret = demo_secret and d = empty_db
      and ?uuid1.0 = "js ''u-1''" and ?uuid2.0 = "js ''k-1''" and sqlnow = "js ''d1''"]
  note c = invalid_responses_uniform [where now = 10000 and secret = demo_secret and d = empty_db
      and hdr = "js ''wokspec_session=abc''" and token = "js ''abc''"]
  from a code demo_expired have 1: "result (callback Github demo_upstream demo_secret Map.empty
      empty_db (Some (js ''c0'')) (Some (js ''zz'')) (js ''u-1'') (js ''k-1'') (js ''d1'') 10000)
     = Inr (c_json (error_json (js ''Invalid state'')) 400)"
    and 3: "me (Some (demo_cookie demo_exp9)) demo_secret empty_db 10000
     = Inr (c_json (me_error (js ''Invalid session'')) 401)"
    and 5: "requireAuth (Some (demo_cookie demo_exp9)) demo_secret empty_db 10000
     = Inr (Respond (unauthorized (js ''Invalid session'')))"
    by simp_all
  from b code(1) demo_issued(1) late have 2: "result (callback Google demo_upstream demo_secret
        (snd (generateState Map.empty demo_rnd 100)) empty_db (Some (js ''c0''))
        (Some (hex_join demo_rnd)) (js ''u-1'') (js ''k-1'') (js ''d1'') 700000)
     = Inr (c_json (error_json (js ''Invalid state'')) 400)"
    by simp
  from c abc have 4: "me (Some (js ''wokspec_session=abc'')) demo_secret empty_db 10000
     = Inr (c_json (me_error (js ''Invalid session'')) 401)"
    and 6: "requireAuth (Some (js ''wokspec_session=abc'')) demo_secret empty_db 10000
     = Inr (Respond (unauthorized (js ''Invalid session'')))"
    by simp_all
  from 1 2 3 4 5 6 show ?thesis by blast
qed

end
